theory Spec2Isabelle
  imports Complex_Main "HOL-Library.Multiset"
begin

section \<open>Sites, object references and Python arithmetic\<close>

text \<open>
  A site is a \<^verbatim>\<open>Land\<close> object with the fields \<^verbatim>\<open>name\<close>, \<^verbatim>\<open>gold\<close> (the reward) and
  \<^verbatim>\<open>guardians\<close> (the guard cost). The class itself (\<^verbatim>\<open>landsites.Land\<close>) is not among the
  sources; the navigators use its getters, its setters and its fields only, so a record
  with these three fields stands for it. Guard costs are Python integers. Rewards, ratio
  keys and scores come out of Python's true division \<^verbatim>\<open>/\<close>; they are modelled as exact
  rational numbers, so the rounding of floating point numbers is outside this model.
\<close>

record land =
  name :: string
  gold :: rat
  guardians :: int

text \<open>
  Land objects are shared: the caller's list, the navigator's array, the tree and the
  heap nodes all refer to the same objects. An object reference is an address, and the
  objects live in a store that the navigator's state carries.
\<close>

type_synonym ref = nat

type_synonym store = "ref \<Rightarrow> land"

datatype py_error = ZeroDivisionError | IndexError | KeyError | TypeError | AttributeError

text \<open>Python's \<^verbatim>\<open>a / b\<close>: \<^verbatim>\<open>None\<close> stands for the ZeroDivisionError it raises when b is 0.\<close>

definition py_truediv :: "rat \<Rightarrow> rat \<Rightarrow> rat option" where
  "py_truediv a b = (if b = 0 then None else Some (a / b))"

section \<open>Mode 2: the priority wrapper and the queue\<close>

text \<open>The dataclass \<^verbatim>\<open>HeapNode\<close>: a reference to a land and its o-score. All six comparison
  methods of the class compare the o-scores only.\<close>

record heap_node =
  hn_land :: ref
  o_score :: rat

text \<open>
  Modelled from the spec: the max-priority queue \<^verbatim>\<open>data_structures.heap.MaxHeap\<close> is not
  among the sources. The spec gives its contract: build from an array, insert, and
  pop-maximum, which fails with an empty-queue condition on an empty queue and orders by
  the score only. The queue is the list of its nodes. The spec leaves the order among equal
  scores open; \<open>get_max\<close> takes the first node of maximal score, and the lemmas about it
  below state only what the contract gives.
\<close>

type_synonym max_heap = "heap_node list"

definition heapify :: "heap_node list \<Rightarrow> max_heap" where
  "heapify points = points"

definition heap_add :: "max_heap \<Rightarrow> heap_node \<Rightarrow> max_heap" where
  "heap_add h n = h @ [n]"

fun max_node :: "heap_node \<Rightarrow> heap_node list \<Rightarrow> heap_node" where
  "max_node m [] = m"
| "max_node m (x # xs) = (if o_score m < o_score x then max_node x xs else max_node m xs)"

definition get_max :: "max_heap \<Rightarrow> py_error + heap_node \<times> max_heap" where
  "get_max h =
     (case h of
        [] \<Rightarrow> Inl IndexError
      | x # xs \<Rightarrow> (let m = max_node x xs in Inr (m, remove1 m h)))"

section \<open>Mode 2: the navigator\<close>

text \<open>
  The state of a \<^verbatim>\<open>Mode2Navigator\<close> together with the land objects it refers to.
  \<^verbatim>\<open>self.sites\<close> (the heap) and \<^verbatim>\<open>self.sites_temp\<close> (the array of all sites added so far) are
  \<^verbatim>\<open>None\<close> after construction. Modelled from the spec: the fixed-size array \<^verbatim>\<open>ArrayR\<close> is not
  among the sources; it is the list of its elements.
\<close>

record mode2 =
  m2_lands :: store
  sites_heap :: "max_heap option"
  sites_temp :: "ref list option"
  n_teams :: int

definition mode2_init :: "store \<Rightarrow> int \<Rightarrow> mode2" where
  "mode2_init objs teams =
     \<lparr>m2_lands = objs, sites_heap = None, sites_temp = None, n_teams = teams\<rparr>"

text \<open>\<^verbatim>\<open>add_sites\<close>: \<^verbatim>\<open>not self.sites_temp\<close> holds for \<^verbatim>\<open>None\<close> and for an array of length 0;
  otherwise the old elements are copied and the new ones follow in their order.\<close>

definition add_sites :: "mode2 \<Rightarrow> ref list \<Rightarrow> mode2" where
  "add_sites self new_sites =
     (case sites_temp self of
        None \<Rightarrow> self\<lparr>sites_temp := Some new_sites\<rparr>
      | Some old_array \<Rightarrow>
          if old_array = [] then self\<lparr>sites_temp := Some new_sites\<rparr>
          else self\<lparr>sites_temp := Some (old_array @ new_sites)\<rparr>)"

text \<open>
  \<^verbatim>\<open>compute_score\<close>: the only exception handler of the class catches the
  ZeroDivisionError of the division by the guard cost. Methods take the state and return
  it with their result; this one returns the state it was given.
\<close>

definition compute_score :: "mode2 \<Rightarrow> ref \<Rightarrow> int \<Rightarrow> (rat \<times> rat \<times> int) \<times> mode2" where
  "compute_score self site adventurers_size =
     (let minimum_adventurers_needed = min (guardians (m2_lands self site)) adventurers_size;
          reward_earned =
            (case py_truediv (of_int minimum_adventurers_needed * gold (m2_lands self site))
                             (of_int (guardians (m2_lands self site))) of
               Some q \<Rightarrow> min q (gold (m2_lands self site))
             | None \<Rightarrow> 0);
          remaining_adventurers = adventurers_size - minimum_adventurers_needed;
          score = 5 / 2 * of_int remaining_adventurers + reward_earned
      in ((score, reward_earned, remaining_adventurers), self))"

text \<open>The score formula as the spec writes it, on the fields of one site.\<close>

definition score_spec :: "land \<Rightarrow> int \<Rightarrow> rat \<times> rat \<times> int" where
  "score_spec site B =
     (let needed = min (guardians site) B;
          reward_ob =
            (if guardians site = 0 then 0
             else min (of_int needed * gold site / of_int (guardians site)) (gold site));
          leftover = B - needed
      in (5 / 2 * of_int leftover + reward_ob, reward_ob, leftover))"

text \<open>\<^verbatim>\<open>construct_score_data_structure\<close>: \<^verbatim>\<open>len(self.sites_temp)\<close> raises a TypeError when
  no site was ever added; otherwise every site is wrapped with its score and the array is
  heapified.\<close>

definition construct_score_data_structure ::
    "mode2 \<Rightarrow> int \<Rightarrow> (py_error + max_heap) \<times> mode2" where
  "construct_score_data_structure self adventurer_size =
     (case sites_temp self of
        None \<Rightarrow> (Inl TypeError, self)
      | Some arr \<Rightarrow>
          (Inr (heapify
                 (map (\<lambda>site. \<lparr>hn_land = site,
                                o_score = fst (fst (compute_score self site adventurer_size))\<rparr>)
                      arr)),
           self))"

text \<open>\<^verbatim>\<open>_update_site\<close> of Mode 2: the guardians and the gold of the land are written, then the
  land goes back into the heap under its fresh score.\<close>

definition m2_update_site ::
    "mode2 \<Rightarrow> ref \<Rightarrow> rat \<Rightarrow> int \<Rightarrow> int \<Rightarrow> (py_error + unit) \<times> mode2" where
  "m2_update_site self site reward_lost guardians_lost adventurer_size =
     (let s1 = self\<lparr>m2_lands := (m2_lands self)
                 (site := (m2_lands self site)
                    \<lparr>guardians := guardians (m2_lands self site) - guardians_lost\<rparr>)\<rparr>;
          s2 = s1\<lparr>m2_lands := (m2_lands s1)
                 (site := (m2_lands s1 site)
                    \<lparr>gold := max 0 (gold (m2_lands s1 site) - reward_lost)\<rparr>)\<rparr>;
          res = fst (compute_score s2 site adventurer_size);
          s3 = snd (compute_score s2 site adventurer_size)
      in case sites_heap s3 of
           None \<Rightarrow> (Inl AttributeError, s3)
         | Some h \<Rightarrow>
             (Inr (), s3\<lparr>sites_heap := Some (heap_add h \<lparr>hn_land = site, o_score = fst res\<rparr>)\<rparr>))"

text \<open>One pass of the team loop of \<^verbatim>\<open>simulate_day\<close>: pop the maximum, compare its score with
  \<^verbatim>\<open>2.5 * adventurer_size\<close>, and attack or record \<^verbatim>\<open>(None, 0)\<close>. The popped node is put back
  by \<^verbatim>\<open>_update_site\<close> only, that is, only after an attack.\<close>

definition team_turn :: "int \<Rightarrow> mode2 \<Rightarrow> (py_error + ref option \<times> int) \<times> mode2" where
  "team_turn adventurer_size self =
     (case sites_heap self of
        None \<Rightarrow> (Inl AttributeError, self)
      | Some h \<Rightarrow>
          (case get_max h of
             Inl e \<Rightarrow> (Inl e, self)
           | Inr (node, h') \<Rightarrow>
               (let s1 = self\<lparr>sites_heap := Some h'\<rparr>;
                    current_land = hn_land node;
                    current_score = o_score node
                in if current_score > 5 / 2 * of_int adventurer_size then
                     (let result = fst (compute_score s1 current_land adventurer_size);
                          s2 = snd (compute_score s1 current_land adventurer_size);
                          res = (Some current_land, adventurer_size - snd (snd result))
                      in case m2_update_site s2 current_land (fst (snd result))
                                (adventurer_size - snd (snd result)) adventurer_size of
                           (Inl e, s3) \<Rightarrow> (Inl e, s3)
                         | (Inr u, s3) \<Rightarrow> (Inr res, s3))
                   else (Inr (None, 0), s1))))"

text \<open>The loop over \<^verbatim>\<open>range(self.n_teams)\<close>, with the number of teams still to play.\<close>

fun teams_loop ::
    "nat \<Rightarrow> int \<Rightarrow> (ref option \<times> int) list \<Rightarrow> mode2 \<Rightarrow>
       (py_error + (ref option \<times> int) list) \<times> mode2" where
  "teams_loop 0 adventurer_size res_tuples self = (Inr res_tuples, self)"
| "teams_loop (Suc k) adventurer_size res_tuples self =
     (case team_turn adventurer_size self of
        (Inl e, s') \<Rightarrow> (Inl e, s')
      | (Inr res, s') \<Rightarrow> teams_loop k adventurer_size (res_tuples @ [res]) s')"

definition simulate_day ::
    "mode2 \<Rightarrow> int \<Rightarrow> (py_error + (ref option \<times> int) list) \<times> mode2" where
  "simulate_day self adventurer_size =
     (case construct_score_data_structure self adventurer_size of
        (Inl e, s') \<Rightarrow> (Inl e, s')
      | (Inr h, s') \<Rightarrow>
          teams_loop (nat (n_teams self)) adventurer_size [] (s'\<lparr>sites_heap := Some h\<rparr>))"

section \<open>Mode 1: the ordered container\<close>

text \<open>
  Modelled from the spec: the ordered keyed container \<^verbatim>\<open>data_structures.bst.BinarySearchTree\<close>
  and its in-order iterator are not among the sources. The spec gives the contract: keys are
  numbers and unique, \<^verbatim>\<open>set\<close> inserts or replaces by key, \<^verbatim>\<open>delete\<close> of an absent key fails
  with a not-found condition, and iteration yields the entries in ascending key order. The
  container is the list of its entries (key, land) in ascending key order; its shape as a
  tree is out of the spec's scope. \<^verbatim>\<open>None\<close> stands for the KeyError of a failed lookup or
  deletion.
\<close>

type_synonym bst = "(rat \<times> ref) list"

definition bst_ok :: "bst \<Rightarrow> bool" where
  "bst_ok t = sorted_wrt (<) (map fst t)"

fun bst_setitem :: "bst \<Rightarrow> rat \<Rightarrow> ref \<Rightarrow> bst" where
  "bst_setitem [] key item = [(key, item)]"
| "bst_setitem ((k, v) # t) key item =
     (if key < k then (key, item) # (k, v) # t
      else if key = k then (key, item) # t
      else (k, v) # bst_setitem t key item)"

fun bst_delitem :: "bst \<Rightarrow> rat \<Rightarrow> bst option" where
  "bst_delitem [] key = None"
| "bst_delitem ((k, v) # t) key =
     (if key = k then Some t
      else (case bst_delitem t key of None \<Rightarrow> None | Some t' \<Rightarrow> Some ((k, v) # t')))"

fun bst_getitem :: "bst \<Rightarrow> rat \<Rightarrow> ref option" where
  "bst_getitem [] key = None"
| "bst_getitem ((k, v) # t) key = (if key = k then Some v else bst_getitem t key)"

definition bst_iter :: "bst \<Rightarrow> (rat \<times> ref) list" where
  "bst_iter t = t"

section \<open>Mode 1: the navigator\<close>

text \<open>The state of a \<^verbatim>\<open>Mode1Navigator\<close> together with the land objects it refers to.\<close>

record mode1 =
  m1_lands :: store
  sites :: bst
  total_adventurers :: int

text \<open>The ratio key \<^verbatim>\<open>get_guardians() / get_gold()\<close>, which the class computes in four places;
  \<^verbatim>\<open>None\<close> is the ZeroDivisionError of a land without gold.\<close>

definition ratio_key :: "land \<Rightarrow> rat option" where
  "ratio_key l = py_truediv (of_int (guardians l)) (gold l)"

text \<open>\<^verbatim>\<open>_append_to_bst\<close>, given the items of \<^verbatim>\<open>l\<close> in the order of \<^verbatim>\<open>range(start, end, incrementer)\<close>.\<close>

fun append_to_bst :: "store \<Rightarrow> bst \<Rightarrow> ref list \<Rightarrow> py_error + bst" where
  "append_to_bst st t [] = Inr t"
| "append_to_bst st t (item # rest) =
     (case ratio_key (st item) of
        None \<Rightarrow> Inl ZeroDivisionError
      | Some key \<Rightarrow> append_to_bst st (bst_setitem t key item) rest)"

text \<open>\<^verbatim>\<open>_create_bst\<close>: the median first (\<^verbatim>\<open>l[0]\<close> of an empty list raises an IndexError), then
  the items left of it from the median downwards, then the items right of it upwards.\<close>

definition create_bst :: "store \<Rightarrow> ref list \<Rightarrow> py_error + bst" where
  "create_bst st l =
     (let median_index = length l div 2
      in if l = [] then Inl IndexError
         else (case ratio_key (st (l ! median_index)) of
                 None \<Rightarrow> Inl ZeroDivisionError
               | Some key \<Rightarrow>
                   (case append_to_bst st (bst_setitem [] key (l ! median_index))
                           (rev (take median_index l)) of
                      Inl e \<Rightarrow> Inl e
                    | Inr t \<Rightarrow> append_to_bst st t (drop (Suc median_index) l))))"

text \<open>
  The constructor. Modelled from the spec: \<^verbatim>\<open>algorithms.mergesort.mergesort\<close> is not among the
  sources; it returns the list in ascending order of the key. Its key function divides by the
  gold of every site. The order it gives to sites of equal key is open in the spec;
  \<open>sort_key\<close> keeps them in their input order.
\<close>

definition mode1_init :: "store \<Rightarrow> ref list \<Rightarrow> int \<Rightarrow> py_error + mode1" where
  "mode1_init objs site_list adventurers =
     (if \<exists>x \<in> set site_list. ratio_key (objs x) = None then Inl ZeroDivisionError
      else (case create_bst objs
                   (sort_key (\<lambda>x. case ratio_key (objs x) of Some key \<Rightarrow> key | None \<Rightarrow> 0)
                      site_list) of
              Inl e \<Rightarrow> Inl e
            | Inr t \<Rightarrow> Inr \<lparr>m1_lands = objs, sites = t, total_adventurers = adventurers\<rparr>))"

text \<open>
  The loop of \<^verbatim>\<open>select_sites\<close>. The iterator is the list of the entries it has not yielded
  yet; \<^verbatim>\<open>next\<close> on an exhausted iterator raises StopIteration, which the loop catches to
  return the tuples collected so far. The function returns the tuples and the final value of
  \<^verbatim>\<open>remaining_adventurers\<close>.
\<close>

fun select_loop ::
    "store \<Rightarrow> (rat \<times> ref) list \<Rightarrow> int \<Rightarrow> (ref \<times> int) list \<Rightarrow> (ref \<times> int) list \<times> int" where
  "select_loop st bst_it remaining_adventurers res_tuples =
     (if remaining_adventurers > 0 then
        (case bst_it of
           [] \<Rightarrow> (res_tuples, remaining_adventurers)
         | site_node # bst_it' \<Rightarrow>
             (let minimum_adventurers_required =
                    min remaining_adventurers (guardians (st (snd site_node)))
              in select_loop st bst_it'
                   (remaining_adventurers - minimum_adventurers_required)
                   (res_tuples @ [(snd site_node, minimum_adventurers_required)])))
      else (res_tuples, remaining_adventurers))"

definition select_sites :: "mode1 \<Rightarrow> (ref \<times> int) list \<times> mode1" where
  "select_sites self =
     (fst (select_loop (m1_lands self) (bst_iter (sites self)) (total_adventurers self) []),
      self)"

text \<open>The value of the local variable \<^verbatim>\<open>remaining_adventurers\<close> when \<^verbatim>\<open>select_sites\<close> returns.\<close>

definition remaining_after_traversal :: "mode1 \<Rightarrow> int" where
  "remaining_after_traversal self =
     snd (select_loop (m1_lands self) (bst_iter (sites self)) (total_adventurers self) [])"

text \<open>The selection as the spec words it: at each visited site send the minimum of what
  remains and the guard cost, and stop when nothing remains or the traversal is exhausted.\<close>

fun greedy_visits :: "store \<Rightarrow> (rat \<times> ref) list \<Rightarrow> int \<Rightarrow> (ref \<times> int) list" where
  "greedy_visits st [] remaining = []"
| "greedy_visits st (entry # rest) remaining =
     (if remaining = 0 then []
      else (snd entry, min remaining (guardians (st (snd entry))))
             # greedy_visits st rest (remaining - min remaining (guardians (st (snd entry)))))"

text \<open>The inner loop of \<^verbatim>\<open>select_sites_from_adventure_numbers\<close>: the division by the
  guardians of a visited land is not guarded, so its ZeroDivisionError leaves the method.\<close>

fun reward_loop :: "store \<Rightarrow> (ref \<times> int) list \<Rightarrow> rat \<Rightarrow> py_error + rat" where
  "reward_loop st [] total_reward = Inr total_reward"
| "reward_loop st ((site, adv) # optimal_path) total_reward =
     (case py_truediv (of_int adv * gold (st site)) (of_int (guardians (st site))) of
        None \<Rightarrow> Inl ZeroDivisionError
      | Some q \<Rightarrow> reward_loop st optimal_path (total_reward + min q (gold (st site))))"

text \<open>The outer loop: the budget field is overwritten for every probed number. An exception
  leaves the state as it is at that moment.\<close>

fun numbers_loop :: "int list \<Rightarrow> rat list \<Rightarrow> mode1 \<Rightarrow> (py_error + rat list) \<times> mode1" where
  "numbers_loop [] res_rewards self = (Inr res_rewards, self)"
| "numbers_loop (current_advs # rest) res_rewards self =
     (let s1 = self\<lparr>total_adventurers := current_advs\<rparr>;
          optimal_path = fst (select_sites s1);
          s2 = snd (select_sites s1)
      in case reward_loop (m1_lands s2) optimal_path 0 of
           Inl e \<Rightarrow> (Inl e, s2)
         | Inr total_reward \<Rightarrow> numbers_loop rest (res_rewards @ [total_reward]) s2)"

definition select_sites_from_adventure_numbers ::
    "mode1 \<Rightarrow> int list \<Rightarrow> (py_error + rat list) \<times> mode1" where
  "select_sites_from_adventure_numbers self adventure_numbers =
     (let temp = total_adventurers self
      in case numbers_loop adventure_numbers [] self of
           (Inl e, s') \<Rightarrow> (Inl e, s')
         | (Inr res_rewards, s') \<Rightarrow> (Inr res_rewards, s'\<lparr>total_adventurers := temp\<rparr>))"

text \<open>\<^verbatim>\<open>update_site\<close>: delete under the key of the current fields, write the fields, insert
  under the key of the new fields. Either division can raise, and so can the deletion.\<close>

definition update_site :: "mode1 \<Rightarrow> ref \<Rightarrow> rat \<Rightarrow> int \<Rightarrow> (py_error + unit) \<times> mode1" where
  "update_site self site new_reward new_guardians =
     (case ratio_key (m1_lands self site) of
        None \<Rightarrow> (Inl ZeroDivisionError, self)
      | Some key \<Rightarrow>
          (case bst_delitem (sites self) key of
             None \<Rightarrow> (Inl KeyError, self)
           | Some t \<Rightarrow>
               (let s1 = self\<lparr>sites := t\<rparr>;
                    s2 = s1\<lparr>m1_lands := (m1_lands s1)
                           (site := (m1_lands s1 site)\<lparr>gold := new_reward\<rparr>)\<rparr>;
                    s3 = s2\<lparr>m1_lands := (m1_lands s2)
                           (site := (m1_lands s2 site)\<lparr>guardians := new_guardians\<rparr>)\<rparr>
                in case ratio_key (m1_lands s3 site) of
                     None \<Rightarrow> (Inl ZeroDivisionError, s3)
                   | Some key' \<Rightarrow> (Inr (), s3\<lparr>sites := bst_setitem (sites s3) key' site\<rparr>))))"

section \<open>Predicates and example states\<close>

text \<open>The array of all sites added so far, and the nodes of the queue, as lists (both are
  empty while the field is still \<^verbatim>\<open>None\<close>).\<close>

definition buffered :: "mode2 \<Rightarrow> ref list" where
  "buffered s = (case sites_temp s of None \<Rightarrow> [] | Some arr \<Rightarrow> arr)"

definition queue :: "mode2 \<Rightarrow> max_heap" where
  "queue s = (case sites_heap s of None \<Rightarrow> [] | Some h \<Rightarrow> h)"

text \<open>\<^verbatim>\<open>simulate_day\<close> cut off after its first \<open>j\<close> teams: the tuples recorded so far and
  the state in which the next team takes its turn.\<close>

definition teams_played ::
    "nat \<Rightarrow> mode2 \<Rightarrow> int \<Rightarrow> (py_error + (ref option \<times> int) list) \<times> mode2" where
  "teams_played j self adventurer_size =
     (case construct_score_data_structure self adventurer_size of
        (Inl e, s') \<Rightarrow> (Inl e, s')
      | (Inr h, s') \<Rightarrow> teams_loop j adventurer_size [] (s'\<lparr>sites_heap := Some h\<rparr>))"

text \<open>The team whose turn it is in state \<open>s\<close> does not attack: the queue is empty, or the
  node it pops fails the test \<^verbatim>\<open>current_score > 2.5 * adventurer_size\<close>.\<close>

definition turn_declines :: "int \<Rightarrow> mode2 \<Rightarrow> bool" where
  "turn_declines B s =
     (case sites_heap s of
        None \<Rightarrow> False
      | Some h \<Rightarrow>
          (case get_max h of
             Inl e \<Rightarrow> True
           | Inr (node, h') \<Rightarrow> \<not> 5 / 2 * of_int B < o_score node))"

text \<open>The fields of a land after an attack with budget \<open>B\<close>, as \<^verbatim>\<open>_update_site\<close> writes them.\<close>

definition attacked :: "land \<Rightarrow> int \<Rightarrow> land" where
  "attacked l B =
     l\<lparr>guardians := guardians l - min (guardians l) B,
       gold := max 0 (gold l - fst (snd (score_spec l B)))\<rparr>"

definition sites_nonneg :: "mode2 \<Rightarrow> bool" where
  "sites_nonneg s =
     (\<forall>site \<in> set (buffered s).
        0 \<le> gold (m2_lands s site) \<and> 0 \<le> guardians (m2_lands s site))"

definition guards_nonneg :: "mode2 \<Rightarrow> bool" where
  "guards_nonneg s = (\<forall>site \<in> set (buffered s). 0 \<le> guardians (m2_lands s site))"

definition heap_refs_ok :: "mode2 \<Rightarrow> bool" where
  "heap_refs_ok s = (\<forall>n \<in> set (queue s). hn_land n \<in> set (buffered s))"

text \<open>The example of the class docstring of \<^verbatim>\<open>Mode2Navigator\<close>: the lands A, B and C at the
  addresses 0, 1 and 2, added to a navigator with a given number of teams.\<close>

definition example_lands :: store where
  "example_lands =
     (\<lambda>_. \<lparr>name = [], gold = 0, guardians = 0\<rparr>)
       (0 := \<lparr>name = ''A'', gold = 400, guardians = 100\<rparr>,
        1 := \<lparr>name = ''B'', gold = 750, guardians = 120\<rparr>,
        2 := \<lparr>name = ''C'', gold = 200, guardians = 30\<rparr>)"

definition example_day :: "int \<Rightarrow> mode2" where
  "example_day teams = add_sites (mode2_init example_lands teams) [0, 1, 2]"

text \<open>Two teams and a single land X with 10 gold and 10 guardians.\<close>

definition lone_site_day :: mode2 where
  "lone_site_day =
     add_sites
       (mode2_init ((\<lambda>_. \<lparr>name = [], gold = 0, guardians = 0\<rparr>)
                      (0 := \<lparr>name = ''X'', gold = 10, guardians = 10\<rparr>)) 2)
       [0]"

text \<open>The example of the class docstring of \<^verbatim>\<open>Mode1Navigator\<close>: the lands A, B and C at the
  addresses 0, 1 and 2 with the ratio keys 1/5, 17/30 and 1/2, and the navigator that
  the constructor builds from them.\<close>

definition island_lands :: store where
  "island_lands =
     (\<lambda>_. \<lparr>name = [], gold = 1, guardians = 0\<rparr>)
       (0 := \<lparr>name = ''A'', gold = 500, guardians = 100\<rparr>,
        1 := \<lparr>name = ''B'', gold = 300, guardians = 170\<rparr>,
        2 := \<lparr>name = ''C'', gold = 100, guardians = 50\<rparr>)"

definition island_nav :: "int \<Rightarrow> mode1" where
  "island_nav adventurers =
     \<lparr>m1_lands = island_lands, sites = [(1 / 5, 0), (1 / 2, 2), (17 / 30, 1)],
      total_adventurers = adventurers\<rparr>"

text \<open>A navigator over a single land X with 100 gold and no guardians, built with 10
  adventurers.\<close>

definition unguarded_nav :: mode1 where
  "unguarded_nav =
     \<lparr>m1_lands = (\<lambda>_. \<lparr>name = [], gold = 1, guardians = 0\<rparr>)
                    (0 := \<lparr>name = ''X'', gold = 100, guardians = 0\<rparr>),
      sites = [(0, 0)], total_adventurers = 10\<rparr>"

section \<open>The queue\<close>

text \<open>What the contract of the queue gives: pop-maximum fails exactly on the empty queue;
  otherwise it returns a node of the queue whose score no other node exceeds, and removes
  one occurrence of it.\<close>

lemma max_node_in: "max_node m xs \<in> set (m # xs)"
  by (induction xs arbitrary: m) auto

lemma max_node_ge_start: "o_score m \<le> o_score (max_node m xs)"
proof (induction xs arbitrary: m)
  case Nil
  show ?case by simp
next
  case (Cons x xs)
  show ?case
  proof (cases "o_score m < o_score x")
    case True
    have "o_score x \<le> o_score (max_node x xs)" by (rule Cons.IH)
    with True show ?thesis by simp
  next
    case False
    then show ?thesis using Cons.IH[of m] by simp
  qed
qed

lemma max_node_ge_rest: "n \<in> set xs \<Longrightarrow> o_score n \<le> o_score (max_node m xs)"
proof (induction xs arbitrary: m)
  case Nil
  then show ?case by simp
next
  case (Cons x xs)
  show ?case
  proof (cases "n = x")
    case True
    have "o_score x \<le> o_score (max_node x xs)" by (rule max_node_ge_start)
    moreover have "o_score m \<le> o_score (max_node m xs)" by (rule max_node_ge_start)
    ultimately show ?thesis using True by auto
  next
    case False
    with Cons.prems have "n \<in> set xs" by simp
    then show ?thesis using Cons.IH by simp
  qed
qed

lemma max_node_ge: "n \<in> set (m # xs) \<Longrightarrow> o_score n \<le> o_score (max_node m xs)"
  using max_node_ge_start max_node_ge_rest by auto

lemma get_max_Nil: "get_max [] = Inl IndexError"
  by (simp add: get_max_def)

lemma get_max_Inl: "get_max h = Inl e \<Longrightarrow> h = [] \<and> e = IndexError"
  by (auto simp: get_max_def Let_def split: list.splits)

lemma get_max_Inr:
  assumes "get_max h = Inr (m, h')"
  shows "m \<in> set h" and "h' = remove1 m h" and "\<forall>n \<in> set h. o_score n \<le> o_score m"
  using assms max_node_in max_node_ge
  by (auto simp: get_max_def Let_def split: list.splits)

lemma get_max_length: "get_max h = Inr (m, h') \<Longrightarrow> Suc (length h') = length h"
proof -
  assume g: "get_max h = Inr (m, h')"
  have "m \<in> set h" and "h' = remove1 m h" using get_max_Inr[OF g] by simp_all
  moreover from \<open>m \<in> set h\<close> have "0 < length h" by (rule length_pos_if_in_set)
  ultimately show ?thesis by (simp add: length_remove1)
qed

lemma get_max_nonempty: "h \<noteq> [] \<Longrightarrow> \<exists>m h'. get_max h = Inr (m, h')"
  by (cases h) (auto simp: get_max_def Let_def)

section \<open>One team's turn\<close>

lemma compute_score_fst [simp]: "fst (compute_score s a B) = score_spec (m2_lands s a) B"
  and compute_score_snd [simp]: "snd (compute_score s a B) = s"
  by (simp_all add: compute_score_def score_spec_def py_truediv_def Let_def)

lemma score_spec_leftover: "snd (snd (score_spec l B)) = B - min (guardians l) B"
  by (simp add: score_spec_def Let_def)

lemma attacked_guardians: "guardians (attacked l B) = guardians l - min (guardians l) B"
  and attacked_gold: "gold (attacked l B) = max 0 (gold l - fst (snd (score_spec l B)))"
  by (simp_all add: attacked_def)

lemma attacked_nonneg:
  "0 \<le> gold (attacked l B)" "0 \<le> guardians l \<Longrightarrow> 0 \<le> guardians (attacked l B)"
  by (simp_all add: attacked_def)

lemma team_turn_unfold:
  assumes "sites_heap s = Some h"
  shows "team_turn B s =
    (case get_max h of
       Inl e \<Rightarrow> (Inl e, s)
     | Inr (node, h') \<Rightarrow>
         if 5 / 2 * of_int B < o_score node then
           (Inr (Some (hn_land node), min (guardians (m2_lands s (hn_land node))) B),
            s\<lparr>m2_lands := (m2_lands s)(hn_land node := attacked (m2_lands s (hn_land node)) B),
              sites_heap := Some (h' @ [\<lparr>hn_land = hn_land node,
                  o_score = fst (score_spec (attacked (m2_lands s (hn_land node)) B) B)\<rparr>])\<rparr>)
         else (Inr (None, 0), s\<lparr>sites_heap := Some h'\<rparr>))"
  using assms
  by (auto simp: team_turn_def m2_update_site_def Let_def heap_add_def attacked_def
      score_spec_leftover split: sum.splits prod.splits)

lemma team_turn_error: "team_turn B s = (Inl e, s') \<Longrightarrow> s' = s"
proof (cases "sites_heap s")
  case None
  then show "team_turn B s = (Inl e, s') \<Longrightarrow> s' = s" by (simp add: team_turn_def)
next
  case (Some h)
  assume "team_turn B s = (Inl e, s')"
  then show "s' = s"
    using Some by (auto simp: team_turn_unfold split: sum.splits prod.splits if_splits)
qed

lemma team_turn_result:
  assumes "team_turn B s = (Inr (x, sent), s')"
  shows "(x = None \<and> sent = 0 \<and> m2_lands s' = m2_lands s
            \<and> (\<exists>m. get_max (queue s) = Inr (m, queue s')))
         \<or> (\<exists>m h'. get_max (queue s) = Inr (m, h') \<and> x = Some (hn_land m)
               \<and> 5 / 2 * of_int B < o_score m
               \<and> sent = min (guardians (m2_lands s (hn_land m))) B
               \<and> m2_lands s' = (m2_lands s)(hn_land m := attacked (m2_lands s (hn_land m)) B)
               \<and> queue s' = h' @ [\<lparr>hn_land = hn_land m,
                    o_score = fst (score_spec (attacked (m2_lands s (hn_land m)) B) B)\<rparr>])"
proof (cases "sites_heap s")
  case None
  with assms show ?thesis by (simp add: team_turn_def)
next
  case (Some h)
  with assms show ?thesis
    by (auto simp: team_turn_unfold queue_def split: sum.splits prod.splits if_splits)
qed

lemma team_turn_frame:
  assumes "team_turn B s = (r, s')"
  shows "sites_temp s' = sites_temp s" and "n_teams s' = n_teams s"
proof -
  have "sites_temp s' = sites_temp s \<and> n_teams s' = n_teams s"
  proof (cases "sites_heap s")
    case None
    with assms show ?thesis by (auto simp: team_turn_def)
  next
    case (Some h)
    with assms show ?thesis
      by (auto simp: team_turn_unfold split: sum.splits prod.splits if_splits)
  qed
  then show "sites_temp s' = sites_temp s" and "n_teams s' = n_teams s" by simp_all
qed

lemma team_turn_buffered: "team_turn B s = (r, s') \<Longrightarrow> buffered s' = buffered s"
  by (simp add: buffered_def team_turn_frame)

lemma team_turn_refs:
  assumes "team_turn B s = (r, s')" and "heap_refs_ok s"
  shows "heap_refs_ok s'"
proof (cases r)
  case (Inl e)
  with assms show ?thesis using team_turn_error by blast
next
  case (Inr p)
  obtain x sent where p: "p = (x, sent)" by (cases p)
  have b: "buffered s' = buffered s" using assms(1) by (rule team_turn_buffered)
  from assms(1) Inr p have t: "team_turn B s = (Inr (x, sent), s')" by simp
  from team_turn_result[OF t] show ?thesis
  proof
    assume "x = None \<and> sent = 0 \<and> m2_lands s' = m2_lands s
            \<and> (\<exists>m. get_max (queue s) = Inr (m, queue s'))"
    then obtain m where g: "get_max (queue s) = Inr (m, queue s')" by blast
    have "queue s' = remove1 m (queue s)" using g by (rule get_max_Inr)
    then have "set (queue s') \<subseteq> set (queue s)" by (simp add: set_remove1_subset)
    with assms(2) b show ?thesis by (auto simp: heap_refs_ok_def)
  next
    assume "\<exists>m h'. get_max (queue s) = Inr (m, h') \<and> x = Some (hn_land m)
               \<and> 5 / 2 * of_int B < o_score m
               \<and> sent = min (guardians (m2_lands s (hn_land m))) B
               \<and> m2_lands s' = (m2_lands s)(hn_land m := attacked (m2_lands s (hn_land m)) B)
               \<and> queue s' = h' @ [\<lparr>hn_land = hn_land m,
                    o_score = fst (score_spec (attacked (m2_lands s (hn_land m)) B) B)\<rparr>]"
    then obtain m h' where g: "get_max (queue s) = Inr (m, h')"
      and q: "queue s' = h' @ [\<lparr>hn_land = hn_land m,
                    o_score = fst (score_spec (attacked (m2_lands s (hn_land m)) B) B)\<rparr>]"
      by blast
    have m: "m \<in> set (queue s)" using g by (rule get_max_Inr)
    have "h' = remove1 m (queue s)" using g by (rule get_max_Inr)
    then have "set h' \<subseteq> set (queue s)" by (simp add: set_remove1_subset)
    with assms(2) b q m show ?thesis by (auto simp: heap_refs_ok_def)
  qed
qed

lemma team_turn_nonneg:
  assumes "team_turn B s = (r, s')" and "sites_nonneg s" and "0 \<le> B"
  shows "sites_nonneg s'"
proof (cases r)
  case (Inl e)
  with assms show ?thesis using team_turn_error by blast
next
  case (Inr p)
  obtain x sent where p: "p = (x, sent)" by (cases p)
  have b: "buffered s' = buffered s" using assms(1) by (rule team_turn_buffered)
  from assms(1) Inr p have t: "team_turn B s = (Inr (x, sent), s')" by simp
  from team_turn_result[OF t] assms(2) b show ?thesis
    by (auto simp: sites_nonneg_def attacked_nonneg)
qed

lemma team_turn_guards:
  assumes "team_turn B s = (r, s')" and "guards_nonneg s" and "0 \<le> B"
  shows "guards_nonneg s'"
proof (cases r)
  case (Inl e)
  with assms show ?thesis using team_turn_error by blast
next
  case (Inr p)
  obtain x sent where p: "p = (x, sent)" by (cases p)
  have b: "buffered s' = buffered s" using assms(1) by (rule team_turn_buffered)
  from assms(1) Inr p have t: "team_turn B s = (Inr (x, sent), s')" by simp
  from team_turn_result[OF t] assms(2) b show ?thesis
    by (auto simp: guards_nonneg_def attacked_nonneg)
qed

lemma team_turn_sent:
  assumes "team_turn B s = (Inr (x, sent), s')" and "guards_nonneg s" and "heap_refs_ok s"
    and "0 \<le> B"
  shows "0 \<le> sent \<and> sent \<le> B \<and> (x = None \<longrightarrow> sent = 0)"
  using team_turn_result[OF assms(1)]
proof
  assume "x = None \<and> sent = 0 \<and> m2_lands s' = m2_lands s
            \<and> (\<exists>m. get_max (queue s) = Inr (m, queue s'))"
  with assms(4) show ?thesis by simp
next
  assume "\<exists>m h'. get_max (queue s) = Inr (m, h') \<and> x = Some (hn_land m)
               \<and> 5 / 2 * of_int B < o_score m
               \<and> sent = min (guardians (m2_lands s (hn_land m))) B
               \<and> m2_lands s' = (m2_lands s)(hn_land m := attacked (m2_lands s (hn_land m)) B)
               \<and> queue s' = h' @ [\<lparr>hn_land = hn_land m,
                    o_score = fst (score_spec (attacked (m2_lands s (hn_land m)) B) B)\<rparr>]"
  then obtain m h' where g: "get_max (queue s) = Inr (m, h')" and x: "x = Some (hn_land m)"
    and sent: "sent = min (guardians (m2_lands s (hn_land m))) B"
    by blast
  have "m \<in> set (queue s)" using g by (rule get_max_Inr)
  with assms(3) have "hn_land m \<in> set (buffered s)" by (simp add: heap_refs_ok_def)
  with assms(2) have "0 \<le> guardians (m2_lands s (hn_land m))" by (simp add: guards_nonneg_def)
  with sent x assms(4) show ?thesis by simp
qed

lemma team_turn_progress:
  assumes "sites_heap s = Some h" and "h \<noteq> []"
  shows "\<exists>r s' h'. team_turn B s = (Inr r, s') \<and> sites_heap s' = Some h'
           \<and> length h \<le> Suc (length h')"
proof -
  obtain m h1 where g: "get_max h = Inr (m, h1)" using assms(2) get_max_nonempty by blast
  have "Suc (length h1) = length h" using g by (rule get_max_length)
  with assms(1) g show ?thesis by (simp add: team_turn_unfold)
qed

section \<open>The loop over the teams\<close>

lemma teams_loop_add:
  "teams_loop (j + k) B acc s =
     (case teams_loop j B acc s of
        (Inl e, s') \<Rightarrow> (Inl e, s')
      | (Inr acc', s') \<Rightarrow> teams_loop k B acc' s')"
proof (induction j arbitrary: acc s)
  case 0
  show ?case by simp
next
  case (Suc j)
  show ?case
  proof (cases "team_turn B s")
    case (Pair r s')
    then show ?thesis using Suc.IH by (cases r) simp_all
  qed
qed

lemma teams_loop_length:
  "teams_loop k B acc s = (Inr res, s') \<Longrightarrow> length res = length acc + k"
proof (induction k arbitrary: acc s)
  case 0
  then show ?case by simp
next
  case (Suc k)
  obtain r s1 where t: "team_turn B s = (r, s1)" by (cases "team_turn B s")
  show ?case
  proof (cases r)
    case (Inl e)
    with t Suc.prems show ?thesis by simp
  next
    case (Inr x)
    with t Suc.prems have "teams_loop k B (acc @ [x]) s1 = (Inr res, s')" by simp
    from Suc.IH[OF this] show ?thesis by simp
  qed
qed

lemma teams_loop_nonneg:
  "sites_nonneg s \<Longrightarrow> 0 \<le> B \<Longrightarrow> sites_nonneg (snd (teams_loop k B acc s))"
proof (induction k arbitrary: acc s)
  case 0
  then show ?case by simp
next
  case (Suc k)
  obtain r s1 where t: "team_turn B s = (r, s1)" by (cases "team_turn B s")
  have n1: "sites_nonneg s1" using t Suc.prems by (rule team_turn_nonneg)
  show ?case
  proof (cases r)
    case (Inl e)
    with t n1 show ?thesis by simp
  next
    case (Inr x)
    with t Suc.IH[OF n1 Suc.prems(2)] show ?thesis by simp
  qed
qed

lemma teams_loop_sent:
  assumes "teams_loop k B acc s = (Inr res, s')" and "guards_nonneg s" and "heap_refs_ok s"
    and "0 \<le> B"
    and "\<forall>p \<in> set acc. 0 \<le> snd p \<and> snd p \<le> B \<and> (fst p = None \<longrightarrow> snd p = 0)"
  shows "\<forall>p \<in> set res. 0 \<le> snd p \<and> snd p \<le> B \<and> (fst p = None \<longrightarrow> snd p = 0)"
  using assms
proof (induction k arbitrary: acc s)
  case 0
  then show ?case by simp
next
  case (Suc k)
  obtain r s1 where t: "team_turn B s = (r, s1)" by (cases "team_turn B s")
  show ?case
  proof (cases r)
    case (Inl e)
    with t Suc.prems(1) show ?thesis by simp
  next
    case (Inr p)
    obtain x sent where p: "p = (x, sent)" by (cases p)
    from t Inr p have t': "team_turn B s = (Inr (x, sent), s1)" by simp
    have loop: "teams_loop k B (acc @ [(x, sent)]) s1 = (Inr res, s')"
      using Suc.prems(1) t' by simp
    have g1: "guards_nonneg s1" using t Suc.prems(2,4) by (rule team_turn_guards)
    have r1: "heap_refs_ok s1" using t Suc.prems(3) by (rule team_turn_refs)
    have "0 \<le> sent \<and> sent \<le> B \<and> (x = None \<longrightarrow> sent = 0)"
      using t' Suc.prems(2,3,4) by (rule team_turn_sent)
    with Suc.prems(5)
    have acc: "\<forall>p \<in> set (acc @ [(x, sent)]).
                 0 \<le> snd p \<and> snd p \<le> B \<and> (fst p = None \<longrightarrow> snd p = 0)"
      by auto
    from Suc.IH[OF loop g1 r1 Suc.prems(4) acc] show ?thesis .
  qed
qed

lemma teams_loop_returns:
  assumes "sites_heap s = Some h" and "k \<le> length h"
  shows "\<exists>res s'. teams_loop k B acc s = (Inr res, s')"
  using assms
proof (induction k arbitrary: acc s h)
  case 0
  show ?case by simp
next
  case (Suc k)
  from Suc.prems(2) have "h \<noteq> []" by auto
  with Suc.prems(1) obtain r s1 h1 where t: "team_turn B s = (Inr r, s1)"
    and h1: "sites_heap s1 = Some h1" and l: "length h \<le> Suc (length h1)"
    using team_turn_progress by blast
  from l Suc.prems(2) have "k \<le> length h1" by simp
  from Suc.IH[OF h1 this, of "acc @ [r]"] t show ?case by simp
qed

lemma declined_turn:
  assumes "sites_heap s = Some h" and "\<forall>n \<in> set h. o_score n \<le> 5 / 2 * of_int B"
  shows "team_turn B s =
           (if h = [] then (Inl IndexError, s)
            else (Inr (None, 0), s\<lparr>sites_heap := Some (snd (projr (get_max h)))\<rparr>))"
proof (cases "h = []")
  case True
  with assms show ?thesis by (simp add: team_turn_unfold get_max_Nil)
next
  case False
  then obtain m h' where g: "get_max h = Inr (m, h')" using get_max_nonempty by blast
  then have "m \<in> set h" by (rule get_max_Inr)
  with assms(2) have "\<not> 5 / 2 * of_int B < o_score m" by auto
  with g False assms(1) show ?thesis by (simp add: team_turn_unfold)
qed

lemma declined_loop:
  assumes "sites_heap s = Some h" and "\<forall>n \<in> set h. o_score n \<le> 5 / 2 * of_int B"
  shows "fst (teams_loop k B acc s) =
           (if k \<le> length h then Inr (acc @ replicate k (None, 0)) else Inl IndexError)
         \<and> m2_lands (snd (teams_loop k B acc s)) = m2_lands s"
  using assms
proof (induction k arbitrary: acc s h)
  case 0
  show ?case by simp
next
  case (Suc k)
  show ?case
  proof (cases "h = []")
    case True
    with Suc.prems show ?thesis by (simp add: declined_turn)
  next
    case False
    then obtain m h' where g: "get_max h = Inr (m, h')" using get_max_nonempty by blast
    let ?s1 = "s\<lparr>sites_heap := Some h'\<rparr>"
    have t: "team_turn B s = (Inr (None, 0), ?s1)"
      using Suc.prems False g by (simp add: declined_turn)
    have h': "h' = remove1 m h" using g by (rule get_max_Inr)
    have len: "Suc (length h') = length h" using g by (rule get_max_length)
    have sub: "\<forall>n \<in> set h'. o_score n \<le> 5 / 2 * of_int B"
      using Suc.prems(2) h' set_remove1_subset[of m h] by auto
    have "sites_heap ?s1 = Some h'" by simp
    from Suc.IH[OF this sub, of "acc @ [(None, 0)]"] t len
    show ?thesis by (auto simp: replicate_app_Cons_same)
  qed
qed

lemma turn_declines_scores:
  assumes "turn_declines B s" and "sites_heap s = Some h"
  shows "\<forall>n \<in> set h. o_score n \<le> 5 / 2 * of_int B"
proof (cases "get_max h")
  case (Inl e)
  then have "h = []" using get_max_Inl by blast
  then show ?thesis by simp
next
  case (Inr p)
  obtain m h' where p: "p = (m, h')" by (cases p)
  with Inr have g: "get_max h = Inr (m, h')" by simp
  with assms have "o_score m \<le> 5 / 2 * of_int B" by (simp add: turn_declines_def)
  moreover have "\<forall>n \<in> set h. o_score n \<le> o_score m" using g by (rule get_max_Inr)
  ultimately show ?thesis by (auto intro: order_trans)
qed

lemma construct_result:
  "construct_score_data_structure self B =
     (case sites_temp self of
        None \<Rightarrow> (Inl TypeError, self)
      | Some arr \<Rightarrow>
          (Inr (map (\<lambda>site. \<lparr>hn_land = site, o_score = fst (score_spec (m2_lands self site) B)\<rparr>) arr),
           self))"
  by (simp add: construct_score_data_structure_def heapify_def split: option.splits)

lemma simulate_day_unfold:
  "simulate_day self B =
     (case sites_temp self of
        None \<Rightarrow> (Inl TypeError, self)
      | Some arr \<Rightarrow>
          teams_loop (nat (n_teams self)) B []
            (self\<lparr>sites_heap := Some (map (\<lambda>site. \<lparr>hn_land = site,
                 o_score = fst (score_spec (m2_lands self site) B)\<rparr>) arr)\<rparr>))"
  by (simp add: simulate_day_def construct_result split: option.splits)

lemma simulate_day_teams_played:
  "simulate_day self B = teams_played (nat (n_teams self)) self B"
  by (simp add: simulate_day_def teams_played_def)

lemma simulate_day_nonneg:
  assumes "sites_nonneg self" and "0 \<le> B"
  shows "sites_nonneg (snd (simulate_day self B))"
proof (cases "sites_temp self")
  case None
  with assms show ?thesis by (simp add: simulate_day_unfold)
next
  case (Some arr)
  let ?s = "self\<lparr>sites_heap := Some (map (\<lambda>site. \<lparr>hn_land = site,
                 o_score = fst (score_spec (m2_lands self site) B)\<rparr>) arr)\<rparr>"
  have "sites_nonneg ?s" using assms(1) by (simp add: sites_nonneg_def buffered_def)
  then have "sites_nonneg (snd (teams_loop (nat (n_teams self)) B [] ?s))"
    using assms(2) by (rule teams_loop_nonneg)
  with Some show ?thesis by (simp add: simulate_day_unfold)
qed

lemma attack_fields:
  assumes "team_turn B s = (Inr (Some site, sent), s')"
  shows "guardians (m2_lands s' site) =
           guardians (m2_lands s site) - (B - snd (snd (fst (compute_score s site B))))
         \<and> B - snd (snd (fst (compute_score s site B))) = min (guardians (m2_lands s site)) B
         \<and> gold (m2_lands s' site) =
             max 0 (gold (m2_lands s site) - fst (snd (fst (compute_score s site B))))"
  using team_turn_result[OF assms]
  by (auto simp: attacked_guardians attacked_gold score_spec_leftover)

lemma simulate_day_sent:
  assumes "guards_nonneg self" and "0 \<le> B" and "fst (simulate_day self B) = Inr res"
  shows "\<forall>p \<in> set res. 0 \<le> snd p \<and> snd p \<le> B \<and> (fst p = None \<longrightarrow> snd p = 0)"
proof (cases "sites_temp self")
  case None
  with assms(3) show ?thesis by (simp add: simulate_day_unfold)
next
  case (Some arr)
  let ?s = "self\<lparr>sites_heap := Some (map (\<lambda>site. \<lparr>hn_land = site,
                 o_score = fst (score_spec (m2_lands self site) B)\<rparr>) arr)\<rparr>"
  have g: "guards_nonneg ?s" using assms(1) by (simp add: guards_nonneg_def buffered_def)
  have r: "heap_refs_ok ?s" using Some by (auto simp: heap_refs_ok_def buffered_def queue_def)
  obtain s' where "teams_loop (nat (n_teams self)) B [] ?s = (Inr res, s')"
    using assms(3) Some
    by (cases "teams_loop (nat (n_teams self)) B [] ?s") (simp add: simulate_day_unfold)
  from teams_loop_sent[OF this g r assms(2)] show ?thesis by simp
qed

lemma simulate_day_returns:
  assumes "sites_temp self = Some arr" and "nat (n_teams self) \<le> length arr"
  shows "\<exists>res. fst (simulate_day self B) = Inr res \<and> length res = nat (n_teams self)"
proof -
  let ?h = "map (\<lambda>site. \<lparr>hn_land = site,
                 o_score = fst (score_spec (m2_lands self site) B)\<rparr>) arr"
  let ?s = "self\<lparr>sites_heap := Some ?h\<rparr>"
  have "sites_heap ?s = Some ?h" by simp
  moreover have "nat (n_teams self) \<le> length ?h" using assms(2) by simp
  ultimately obtain res s' where t: "teams_loop (nat (n_teams self)) B [] ?s = (Inr res, s')"
    using teams_loop_returns by blast
  then have "length res = nat (n_teams self)" using teams_loop_length by fastforce
  with t assms(1) show ?thesis by (simp add: simulate_day_unfold)
qed

section \<open>Properties of Mode 2\<close>

text \<open>
  Claim C2. For every site and every budget B, \<^verbatim>\<open>compute_score\<close> returns the triple of the
  spec's formula (needed = min(guard_cost, B); reward_ob = min(needed * reward / guard_cost,
  reward), and 0 when the guard cost is 0, with no division fault; leftover = B - needed;
  score = 2.5 * leftover + reward_ob), and it leaves the navigator and the sites as they were.
\<close>

theorem compute_score_spec:
  "compute_score self site B = (score_spec (m2_lands self site) B, self)"
  by (simp add: compute_score_def score_spec_def py_truediv_def Let_def)

text \<open>
  Claim C4. A navigator with 5 teams, after \<^verbatim>\<open>add_sites\<close> with the lands A (400 gold, 100
  guardians), B (750, 120) and C (200, 30), returns from \<^verbatim>\<open>simulate_day(100)\<close> the list
  [(B, 100), (A, 100), (C, 30), (B, 20), (None, 0)]. The lands are at the addresses 0, 1
  and 2; the second part reads the names at the addresses of the result. The scores that
  occur (625, 400, 375, 325, 250) and the rewards are whole numbers, which floating point
  arithmetic computes exactly, and the only nodes of equal score are the three of score 250
  at the last turn, none of which is above the threshold 250.
\<close>

theorem simulate_day_example:
  "fst (simulate_day (add_sites (mode2_init example_lands 5) [0, 1, 2]) 100) =
     Inr [(Some 1, 100), (Some 0, 100), (Some 2, 30), (Some 1, 20), (None, 0)]
   \<and> map (\<lambda>site. name (example_lands site)) [1, 0, 2, 1] = [''B'', ''A'', ''C'', ''B'']"
proof -
  have "fst (simulate_day (add_sites (mode2_init example_lands 5) [0, 1, 2]) 100) =
     Inr [(Some 1, 100), (Some 0, 100), (Some 2, 30), (Some 1, 20), (None, 0)]"
    by code_simp
  moreover have "map (\<lambda>site. name (example_lands site)) [1, 0, 2, 1] = [''B'', ''A'', ''C'', ''B'']"
    by (simp add: example_lands_def)
  ultimately show ?thesis by (rule conjI)
qed

text \<open>After the day of the example every land has lost all its gold and guardians, as the
  docstring shows.\<close>

lemma example_day_final_lands:
  "map (m2_lands (snd (simulate_day (example_day 5) 100))) [0, 1, 2] =
     [\<lparr>name = ''A'', gold = 0, guardians = 0\<rparr>, \<lparr>name = ''B'', gold = 0, guardians = 0\<rparr>,
      \<lparr>name = ''C'', gold = 0, guardians = 0\<rparr>]"
  by code_simp

text \<open>
  Claim C1, as the code has it. Let the first \<open>j\<close> teams of a \<^verbatim>\<open>simulate_day(B)\<close> call have
  played, and let the next team decline: the queue is empty at its turn, or the node it pops
  fails \<^verbatim>\<open>score > 2.5 * B\<close>. Then no land is written for the rest of the call. Every declining
  team removes one node from the queue for good, and a pop from the empty queue raises the
  IndexError of the queue. So if the queue holds at least as many nodes as there are teams
  left, this team and every later one records (None, 0), and the list returned has exactly
  \<^verbatim>\<open>n_teams\<close> entries; if it holds fewer, the call raises the IndexError and returns no list.
\<close>

theorem declined_team_ends_attacks:
  assumes "j \<le> nat (n_teams self)"
    and "teams_played j self B = (Inr res_tuples, sj)"
    and "turn_declines B sj"
  shows "fst (simulate_day self B) =
           (if nat (n_teams self) - j \<le> length (queue sj)
            then Inr (res_tuples @ replicate (nat (n_teams self) - j) (None, 0))
            else Inl IndexError)
         \<and> m2_lands (snd (simulate_day self B)) = m2_lands sj
         \<and> length (res_tuples @ replicate (nat (n_teams self) - j) (None, 0)) =
             nat (n_teams self)"
proof -
  let ?n = "nat (n_teams self)"
  obtain h where h: "sites_heap sj = Some h"
    using assms(3) by (cases "sites_heap sj") (simp_all add: turn_declines_def)
  then have q: "queue sj = h" by (simp add: queue_def)
  obtain h0 s0 where c: "construct_score_data_structure self B = (Inr h0, s0)"
    using assms(2)
    by (cases "construct_score_data_structure self B")
       (auto simp: teams_played_def split: sum.splits)
  let ?s = "s0\<lparr>sites_heap := Some h0\<rparr>"
  have pj: "teams_loop j B [] ?s = (Inr res_tuples, sj)"
    using assms(2) c by (simp add: teams_played_def)
  have "simulate_day self B = teams_loop (j + (?n - j)) B [] ?s"
    using c assms(1) by (simp add: simulate_day_def)
  also have "\<dots> = teams_loop (?n - j) B res_tuples sj"
    using pj by (simp add: teams_loop_add)
  finally have eq: "simulate_day self B = teams_loop (?n - j) B res_tuples sj" .
  have sc: "\<forall>n \<in> set h. o_score n \<le> 5 / 2 * of_int B"
    using assms(3) h by (rule turn_declines_scores)
  have len: "length res_tuples = j" using teams_loop_length[OF pj] by simp
  from declined_loop[OF h sc, of "?n - j" res_tuples] eq len assms(1) q
  show ?thesis by simp
qed

text \<open>The example day with 5 teams: after four attacks the fifth team pops a node of score
  250, which is not above 2.5 * 100, and three nodes are in the queue for the one team left.\<close>

theorem declined_team_ends_attacks_witness:
  "4 \<le> nat (n_teams (example_day 5))
   \<and> fst (teams_played 4 (example_day 5) 100) =
       Inr [(Some 1, 100), (Some 0, 100), (Some 2, 30), (Some 1, 20)]
   \<and> turn_declines 100 (snd (teams_played 4 (example_day 5) 100))
   \<and> length (queue (snd (teams_played 4 (example_day 5) 100))) = 3
   \<and> fst (simulate_day (example_day 5) 100) =
       Inr [(Some 1, 100), (Some 0, 100), (Some 2, 30), (Some 1, 20), (None, 0)]
   \<and> m2_lands (snd (simulate_day (example_day 5) 100)) =
       m2_lands (snd (teams_played 4 (example_day 5) 100))"
proof -
  let ?sj = "snd (teams_played 4 (example_day 5) 100)"
  have n: "nat (n_teams (example_day 5)) = 5"
    by (simp add: example_day_def add_sites_def mode2_init_def)
  have a: "4 \<le> nat (n_teams (example_day 5))" by (simp add: n)
  have f: "fst (teams_played 4 (example_day 5) 100) =
             Inr [(Some 1, 100), (Some 0, 100), (Some 2, 30), (Some 1, 20)]"
    by code_simp
  then have b: "teams_played 4 (example_day 5) 100 =
                  (Inr [(Some 1, 100), (Some 0, 100), (Some 2, 30), (Some 1, 20)], ?sj)"
    by (simp add: prod_eq_iff)
  have c: "turn_declines 100 ?sj" by code_simp
  have l: "length (queue ?sj) = 3" by code_simp
  from declined_team_ends_attacks[OF a b c] a f c l show ?thesis by (simp add: n)
qed

text \<open>Claim C1 as the spec states it fails: with one land X (10 gold, 10 guardians), two
  teams and the budget 10, the first team pops X with the score 10, which is not above 25,
  and records (None, 0); the queue is then empty, and the pop of the second team raises.\<close>

theorem lone_site_day_counterexample:
  "turn_declines 10 (snd (teams_played 0 lone_site_day 10))
   \<and> fst (teams_played 1 lone_site_day 10) = Inr [(None, 0)]
   \<and> queue (snd (teams_played 1 lone_site_day 10)) = []
   \<and> nat (n_teams lone_site_day) = 2
   \<and> fst (simulate_day lone_site_day 10) = Inl IndexError"
proof -
  have "turn_declines 10 (snd (teams_played 0 lone_site_day 10))" by code_simp
  moreover have "fst (teams_played 1 lone_site_day 10) = Inr [(None, 0)]" by code_simp
  moreover have "queue (snd (teams_played 1 lone_site_day 10)) = []" by code_simp
  moreover have "nat (n_teams lone_site_day) = 2" by code_simp
  moreover have "fst (simulate_day lone_site_day 10) = Inl IndexError" by code_simp
  ultimately show ?thesis by simp
qed

text \<open>
  Claim C8. If every site in the array has gold and guardians of at least 0 and the budget B
  is at least 0, the same holds after \<^verbatim>\<open>simulate_day(B)\<close>, whether the call returns or raises.
  Every attack lowers the guardians of the attacked site by B minus the leftover adventurers,
  which is min(guardians, B), and its gold by the reward obtained, but not below 0.
\<close>

theorem simulate_day_keeps_sites_nonneg:
  assumes "sites_nonneg self" and "0 \<le> B"
  shows "sites_nonneg (snd (simulate_day self B))
         \<and> (\<forall>s site sent s'. team_turn B s = (Inr (Some site, sent), s') \<longrightarrow>
               guardians (m2_lands s' site) =
                 guardians (m2_lands s site) - (B - snd (snd (fst (compute_score s site B))))
               \<and> B - snd (snd (fst (compute_score s site B))) = min (guardians (m2_lands s site)) B
               \<and> gold (m2_lands s' site) =
                   max 0 (gold (m2_lands s site) - fst (snd (fst (compute_score s site B)))))"
  using simulate_day_nonneg[OF assms] attack_fields by blast

text \<open>The example day: the first team attacks B (750 gold, 120 guardians) with 100
  adventurers, which leaves it 125 gold and 20 guardians.\<close>

theorem simulate_day_keeps_sites_nonneg_witness:
  "sites_nonneg (example_day 5) \<and> (0::int) \<le> 100
   \<and> sites_nonneg (snd (simulate_day (example_day 5) 100))
   \<and> fst (team_turn 100 (snd (teams_played 0 (example_day 5) 100))) = Inr (Some 1, 100)
   \<and> guardians (m2_lands (snd (team_turn 100 (snd (teams_played 0 (example_day 5) 100)))) 1) = 20
   \<and> gold (m2_lands (snd (team_turn 100 (snd (teams_played 0 (example_day 5) 100)))) 1) = 125"
proof -
  let ?s = "snd (teams_played 0 (example_day 5) 100)"
  have h: "sites_nonneg (example_day 5)" by code_simp
  have b: "(0::int) \<le> 100" by simp
  have f: "fst (team_turn 100 ?s) = Inr (Some 1, 100)" by code_simp
  then have t: "team_turn 100 ?s = (Inr (Some 1, 100), snd (team_turn 100 ?s))"
    by (simp add: prod_eq_iff)
  note w = simulate_day_keeps_sites_nonneg[OF h b]
  from w have d: "sites_nonneg (snd (simulate_day (example_day 5) 100))" by (rule conjunct1)
  from w t have
    "guardians (m2_lands (snd (team_turn 100 ?s)) 1) =
       guardians (m2_lands ?s 1) - (100 - snd (snd (fst (compute_score ?s 1 100))))"
    and "gold (m2_lands (snd (team_turn 100 ?s)) 1) =
       max 0 (gold (m2_lands ?s 1) - fst (snd (fst (compute_score ?s 1 100))))"
    by blast+
  moreover have
    "guardians (m2_lands ?s 1) - (100 - snd (snd (fst (compute_score ?s 1 100)))) = 20"
    by code_simp
  moreover have "max 0 (gold (m2_lands ?s 1) - fst (snd (fst (compute_score ?s 1 100)))) = 125"
    by code_simp
  ultimately show ?thesis using h d f by simp
qed

text \<open>
  Claim C9. If every site in the array has guardians of at least 0 and the budget B is at
  least 0, every pair (site or None, sent) of the list that \<^verbatim>\<open>simulate_day(B)\<close> returns has
  0 \<le> sent \<le> B. A team that does not attack records sent = 0, and a team that attacks records
  the minimum of B and the guardians the site has when its node is popped. The call does
  return a list, of \<^verbatim>\<open>n_teams\<close> pairs, when there are at least as many sites as teams.
\<close>

theorem simulate_day_sent_bounds:
  assumes "guards_nonneg self" and "0 \<le> B"
  shows "(\<forall>res. fst (simulate_day self B) = Inr res \<longrightarrow>
            (\<forall>p \<in> set res. 0 \<le> snd p \<and> snd p \<le> B \<and> (fst p = None \<longrightarrow> snd p = 0)))
         \<and> (\<forall>s x sent s'. team_turn B s = (Inr (x, sent), s') \<longrightarrow>
               (x = None \<and> sent = 0)
               \<or> (\<exists>site. x = Some site \<and> sent = min (guardians (m2_lands s site)) B))
         \<and> (\<forall>arr. sites_temp self = Some arr \<and> nat (n_teams self) \<le> length arr \<longrightarrow>
               (\<exists>res. fst (simulate_day self B) = Inr res \<and> length res = nat (n_teams self)))"
proof (intro conjI allI impI)
  fix res assume "fst (simulate_day self B) = Inr res"
  with assms show "\<forall>p \<in> set res. 0 \<le> snd p \<and> snd p \<le> B \<and> (fst p = None \<longrightarrow> snd p = 0)"
    by (rule simulate_day_sent)
next
  fix s x sent s' assume "team_turn B s = (Inr (x, sent), s')"
  from team_turn_result[OF this]
  show "(x = None \<and> sent = 0)
        \<or> (\<exists>site. x = Some site \<and> sent = min (guardians (m2_lands s site)) B)"
    by blast
next
  fix arr assume "sites_temp self = Some arr \<and> nat (n_teams self) \<le> length arr"
  then show "\<exists>res. fst (simulate_day self B) = Inr res \<and> length res = nat (n_teams self)"
    using simulate_day_returns by blast
qed

text \<open>The example day with 5 teams for the bounds, and with 3 teams (as many as sites) for
  the return of a list.\<close>

theorem simulate_day_sent_bounds_witness:
  "guards_nonneg (example_day 5) \<and> (0::int) \<le> 100
   \<and> fst (simulate_day (example_day 5) 100) =
       Inr [(Some 1, 100), (Some 0, 100), (Some 2, 30), (Some 1, 20), (None, 0)]
   \<and> list_all (\<lambda>p. 0 \<le> snd p \<and> snd p \<le> 100 \<and> (fst p = None \<longrightarrow> snd p = 0))
       [(Some (1::nat), 100::int), (Some 0, 100), (Some 2, 30), (Some 1, 20), (None, 0)]
   \<and> fst (team_turn 100 (snd (teams_played 2 (example_day 5) 100))) = Inr (Some 2, 30)
   \<and> min (guardians (m2_lands (snd (teams_played 2 (example_day 5) 100)) 2)) 100 = 30
   \<and> guards_nonneg (example_day 3)
   \<and> sites_temp (example_day 3) = Some [0, 1, 2]
   \<and> (\<exists>res. fst (simulate_day (example_day 3) 100) = Inr res \<and> length res = 3)"
proof -
  let ?r = "[(Some (1::nat), 100::int), (Some 0, 100), (Some 2, 30), (Some 1, 20), (None, 0)]"
  have h: "guards_nonneg (example_day 5)" by code_simp
  have b: "(0::int) \<le> 100" by simp
  have f: "fst (simulate_day (example_day 5) 100) = Inr ?r" by code_simp
  note w = simulate_day_sent_bounds[OF h b]
  from w have "\<forall>res. fst (simulate_day (example_day 5) 100) = Inr res \<longrightarrow>
            (\<forall>p \<in> set res. 0 \<le> snd p \<and> snd p \<le> 100 \<and> (fst p = None \<longrightarrow> snd p = 0))"
    by (rule conjunct1)
  with f have "\<forall>p \<in> set ?r. 0 \<le> snd p \<and> snd p \<le> 100 \<and> (fst p = None \<longrightarrow> snd p = 0)"
    by blast
  then have la: "list_all (\<lambda>p. 0 \<le> snd p \<and> snd p \<le> 100 \<and> (fst p = None \<longrightarrow> snd p = 0)) ?r"
    by (simp only: list_all_iff)
  have t: "fst (team_turn 100 (snd (teams_played 2 (example_day 5) 100))) = Inr (Some 2, 30)"
    by code_simp
  have m: "min (guardians (m2_lands (snd (teams_played 2 (example_day 5) 100)) 2)) 100 = 30"
    by code_simp
  have h3: "guards_nonneg (example_day 3)" by code_simp
  have st: "sites_temp (example_day 3) = Some [0, 1, 2]"
    by (simp add: example_day_def add_sites_def mode2_init_def)
  have n3: "nat (n_teams (example_day 3)) = 3"
    by (simp add: example_day_def add_sites_def mode2_init_def)
  from simulate_day_sent_bounds[OF h3 b] st n3
  have "\<exists>res. fst (simulate_day (example_day 3) 100) = Inr res \<and> length res = 3"
    by fastforce
  with h b f la t m h3 st show ?thesis by blast
qed

section \<open>The ordered container\<close>

text \<open>Insertion and deletion keep the keys in strictly ascending order, and lookups see
  exactly the entry that was set or deleted.\<close>

lemma bst_getitem_None: "bst_getitem t key = None \<longleftrightarrow> key \<notin> fst ` set t"
  by (induction t key rule: bst_getitem.induct) auto

lemma bst_getitem_setitem:
  "bst_getitem (bst_setitem t key item) k' = (if k' = key then Some item else bst_getitem t k')"
  by (induction t key item rule: bst_setitem.induct) auto

lemma bst_setitem_keys: "fst ` set (bst_setitem t key item) = insert key (fst ` set t)"
  by (induction t key item rule: bst_setitem.induct) auto

lemma bst_ok_Cons: "bst_ok ((k, v) # t) \<longleftrightarrow> (\<forall>k' \<in> fst ` set t. k < k') \<and> bst_ok t"
  by (auto simp: bst_ok_def)

lemma bst_ok_setitem: "bst_ok t \<Longrightarrow> bst_ok (bst_setitem t key item)"
proof (induction t)
  case Nil
  show ?case by (simp add: bst_ok_def)
next
  case (Cons e t)
  obtain k v where e: "e = (k, v)" by (cases e)
  from Cons.prems e have low: "\<forall>k' \<in> fst ` set t. k < k'" and ok: "bst_ok t"
    by (simp_all add: bst_ok_Cons)
  show ?case
  proof (cases "key < k")
    case True
    with low have "\<forall>k' \<in> fst ` set t. key < k'" by auto
    with True low ok e show ?thesis by (simp add: bst_ok_Cons)
  next
    case False
    show ?thesis
    proof (cases "key = k")
      case True
      with low ok e show ?thesis by (simp add: bst_ok_Cons)
    next
      case neq: False
      with False have "k < key" by simp
      with low have "\<forall>k' \<in> fst ` set (bst_setitem t key item). k < k'"
        by (simp add: bst_setitem_keys)
      with False neq e Cons.IH[OF ok] show ?thesis by (simp add: bst_ok_Cons)
    qed
  qed
qed

lemma bst_delitem_keys:
  "bst_delitem t key = Some t' \<Longrightarrow> fst ` set t' \<subseteq> fst ` set t"
proof (induction t arbitrary: t')
  case Nil
  then show ?case by simp
next
  case (Cons e t)
  obtain k v where e: "e = (k, v)" by (cases e)
  show ?case
  proof (cases "key = k")
    case True
    with Cons.prems e show ?thesis by auto
  next
    case False
    with Cons.prems e obtain t1 where d: "bst_delitem t key = Some t1" and t': "t' = (k, v) # t1"
      by (auto split: option.splits)
    from Cons.IH[OF d] t' e show ?thesis by auto
  qed
qed

lemma bst_ok_delitem: "bst_ok t \<Longrightarrow> bst_delitem t key = Some t' \<Longrightarrow> bst_ok t'"
proof (induction t arbitrary: t')
  case Nil
  then show ?case by simp
next
  case (Cons e t)
  obtain k v where e: "e = (k, v)" by (cases e)
  from Cons.prems(1) e have low: "\<forall>k' \<in> fst ` set t. k < k'" and ok: "bst_ok t"
    by (simp_all add: bst_ok_Cons)
  show ?case
  proof (cases "key = k")
    case True
    with Cons.prems(2) e ok show ?thesis by simp
  next
    case False
    with Cons.prems(2) e obtain t1 where d: "bst_delitem t key = Some t1"
      and t': "t' = (k, v) # t1"
      by (auto split: option.splits)
    have "fst ` set t1 \<subseteq> fst ` set t" using d by (rule bst_delitem_keys)
    with low have "\<forall>k' \<in> fst ` set t1. k < k'" by blast
    with Cons.IH[OF ok d] t' show ?thesis by (simp add: bst_ok_Cons)
  qed
qed

lemma bst_getitem_delitem:
  "bst_ok t \<Longrightarrow> bst_delitem t key = Some t' \<Longrightarrow>
   bst_getitem t' k' = (if k' = key then None else bst_getitem t k')"
proof (induction t arbitrary: t')
  case Nil
  then show ?case by simp
next
  case (Cons e t)
  obtain k v where e: "e = (k, v)" by (cases e)
  from Cons.prems(1) e have low: "\<forall>k' \<in> fst ` set t. k < k'" and ok: "bst_ok t"
    by (simp_all add: bst_ok_Cons)
  show ?case
  proof (cases "key = k")
    case True
    with Cons.prems(2) e have t': "t' = t" by simp
    from low have "k \<notin> fst ` set t" by auto
    then have "bst_getitem t k = None" by (simp add: bst_getitem_None)
    with True t' e show ?thesis by simp
  next
    case False
    with Cons.prems(2) e obtain t1 where d: "bst_delitem t key = Some t1"
      and t': "t' = (k, v) # t1"
      by (auto split: option.splits)
    from Cons.IH[OF ok d] t' e False show ?thesis by auto
  qed
qed

lemma bst_delitem_present:
  "bst_getitem t key = Some v \<Longrightarrow> \<exists>t'. bst_delitem t key = Some t'"
  by (induction t key rule: bst_delitem.induct) (auto split: if_splits)

lemma append_to_bst_ok:
  "bst_ok t \<Longrightarrow> append_to_bst st t items = Inr t' \<Longrightarrow> bst_ok t'"
proof (induction items arbitrary: t)
  case Nil
  then show ?case by simp
next
  case (Cons item items)
  from Cons.prems(2) obtain key where k: "ratio_key (st item) = Some key"
    by (cases "ratio_key (st item)") simp_all
  with Cons.prems(2) have a: "append_to_bst st (bst_setitem t key item) items = Inr t'"
    by simp
  have "bst_ok (bst_setitem t key item)" using Cons.prems(1) by (rule bst_ok_setitem)
  from Cons.IH[OF this a] show ?case .
qed

lemma create_bst_ok:
  assumes "create_bst st l = Inr t"
  shows "bst_ok t"
proof -
  let ?m = "length l div 2"
  from assms have ne: "l \<noteq> []" by (auto simp: create_bst_def Let_def)
  with assms obtain key where k: "ratio_key (st (l ! ?m)) = Some key"
    by (cases "ratio_key (st (l ! ?m))") (simp_all add: create_bst_def Let_def)
  let ?t0 = "bst_setitem [] key (l ! ?m)"
  from assms ne k obtain t1 where
    left: "append_to_bst st ?t0 (rev (take ?m l)) = Inr t1" and
    right: "append_to_bst st t1 (drop (Suc ?m) l) = Inr t"
    by (cases "append_to_bst st ?t0 (rev (take ?m l))") (simp_all add: create_bst_def Let_def)
  have "bst_ok ?t0" by (simp add: bst_ok_def)
  then have "bst_ok t1" using left by (rule append_to_bst_ok)
  then show ?thesis using right by (rule append_to_bst_ok)
qed

lemma mode1_init_ok:
  assumes "mode1_init objs site_list adventurers = Inr nav"
  shows "bst_ok (sites nav) \<and> total_adventurers nav = adventurers \<and> m1_lands nav = objs"
proof -
  let ?sorted = "sort_key (\<lambda>x. case ratio_key (objs x) of Some key \<Rightarrow> key | None \<Rightarrow> 0) site_list"
  from assms obtain t where c: "create_bst objs ?sorted = Inr t"
    and n: "nav = \<lparr>m1_lands = objs, sites = t, total_adventurers = adventurers\<rparr>"
    by (cases "create_bst objs ?sorted") (auto simp: mode1_init_def split: if_splits)
  from c have "bst_ok t" by (rule create_bst_ok)
  with n show ?thesis by simp
qed

text \<open>The constructor on the examples: the sorted list is A, C, B; C is inserted first, then
  A, then B.\<close>

lemma island_init: "mode1_init island_lands [0, 1, 2] n = Inr (island_nav n)"
  by (simp add: mode1_init_def create_bst_def island_nav_def island_lands_def ratio_key_def
      py_truediv_def)

lemma unguarded_init:
  "mode1_init (m1_lands unguarded_nav) [0] 10 = Inr unguarded_nav"
  by (simp add: mode1_init_def create_bst_def unguarded_nav_def ratio_key_def py_truediv_def)

section \<open>The selection loop of Mode 1\<close>

declare select_loop.simps [simp del]

lemma select_loop_done: "remaining \<le> 0 \<Longrightarrow> select_loop st it remaining acc = (acc, remaining)"
  by (simp add: select_loop.simps)

lemma select_loop_Nil: "select_loop st [] remaining acc = (acc, remaining)"
  by (simp add: select_loop.simps)

lemma select_loop_Cons:
  "0 < remaining \<Longrightarrow>
   select_loop st (e # it) remaining acc =
     select_loop st it (remaining - min remaining (guardians (st (snd e))))
       (acc @ [(snd e, min remaining (guardians (st (snd e))))])"
  by (simp add: select_loop.simps[of st "e # it"] Let_def)

lemma select_loop_greedy:
  "0 \<le> remaining \<Longrightarrow>
   fst (select_loop st it remaining acc) = acc @ greedy_visits st it remaining"
proof (induction it arbitrary: remaining acc)
  case Nil
  show ?case by (simp add: select_loop_Nil)
next
  case (Cons e it)
  show ?case
  proof (cases "remaining = 0")
    case True
    then show ?thesis by (simp add: select_loop_done)
  next
    case False
    with Cons.prems have pos: "0 < remaining" by simp
    have "0 \<le> remaining - min remaining (guardians (st (snd e)))" by simp
    from Cons.IH[OF this] pos False show ?thesis by (simp add: select_loop_Cons)
  qed
qed

lemma select_loop_sum:
  "sum_list (map snd (fst (select_loop st it remaining acc))) =
     sum_list (map snd acc) + remaining - snd (select_loop st it remaining acc)"
proof (induction it arbitrary: remaining acc)
  case Nil
  show ?case by (simp add: select_loop_Nil)
next
  case (Cons e it)
  show ?case
  proof (cases "0 < remaining")
    case True
    then show ?thesis using Cons.IH by (simp add: select_loop_Cons)
  next
    case False
    then show ?thesis by (simp add: select_loop_done)
  qed
qed

lemma select_loop_remaining:
  "0 \<le> remaining \<Longrightarrow> 0 \<le> snd (select_loop st it remaining acc)"
proof (induction it arbitrary: remaining acc)
  case Nil
  then show ?case by (simp add: select_loop_Nil)
next
  case (Cons e it)
  show ?case
  proof (cases "0 < remaining")
    case True
    have "0 \<le> remaining - min remaining (guardians (st (snd e)))" by simp
    from Cons.IH[OF this] True show ?thesis by (simp add: select_loop_Cons)
  next
    case False
    with Cons.prems show ?thesis by (simp add: select_loop_done)
  qed
qed

lemma greedy_visits_zero: "greedy_visits st it 0 = []"
  by (cases it) simp_all

lemma greedy_visits_length: "length (greedy_visits st it remaining) \<le> length it"
  by (induction it arbitrary: remaining) simp_all

lemma greedy_visits_prefix:
  "map fst (greedy_visits st it remaining) =
     map snd (take (length (greedy_visits st it remaining)) it)"
  by (induction it arbitrary: remaining) simp_all

lemma select_sites_state: "snd (select_sites self) = self"
  by (simp add: select_sites_def)

lemma select_loop_sites:
  "fst ` set (fst (select_loop st it remaining acc)) \<subseteq> fst ` set acc \<union> snd ` set it"
proof (induction it arbitrary: remaining acc)
  case Nil
  show ?case by (simp add: select_loop_Nil)
next
  case (Cons e it)
  show ?case
  proof (cases "0 < remaining")
    case True
    let ?m = "min remaining (guardians (st (snd e)))"
    have "fst ` set (fst (select_loop st (e # it) remaining acc))
            \<subseteq> fst ` set (acc @ [(snd e, ?m)]) \<union> snd ` set it"
      unfolding select_loop_Cons[OF True] by (rule Cons.IH)
    also have "\<dots> \<subseteq> fst ` set acc \<union> snd ` set (e # it)" by auto
    finally show ?thesis .
  next
    case False
    then show ?thesis by (auto simp: select_loop_done)
  qed
qed

lemma select_sites_visits:
  "p \<in> set (fst (select_sites self)) \<Longrightarrow> fst p \<in> snd ` set (bst_iter (sites self))"
  using select_loop_sites[of "m1_lands self" "bst_iter (sites self)" "total_adventurers self" "[]"]
  by (auto simp: select_sites_def)

lemma numbers_loop_frame:
  "m1_lands (snd (numbers_loop ns acc self)) = m1_lands self
   \<and> sites (snd (numbers_loop ns acc self)) = sites self"
proof (induction ns arbitrary: acc self)
  case Nil
  show ?case by simp
next
  case (Cons n ns)
  let ?s1 = "self\<lparr>total_adventurers := n\<rparr>"
  show ?case
  proof (cases "reward_loop (m1_lands ?s1) (fst (select_sites ?s1)) 0")
    case (Inl e)
    then show ?thesis by (simp add: select_sites_state Let_def)
  next
    case (Inr tot)
    then show ?thesis using Cons.IH[of "acc @ [tot]" ?s1]
      by (simp add: select_sites_state Let_def)
  qed
qed

lemma numbers_loop_length:
  "fst (numbers_loop ns acc self) = Inr rs \<Longrightarrow> length rs = length acc + length ns"
proof (induction ns arbitrary: acc self)
  case Nil
  then show ?case by auto
next
  case (Cons n ns)
  let ?s1 = "self\<lparr>total_adventurers := n\<rparr>"
  show ?case
  proof (cases "reward_loop (m1_lands ?s1) (fst (select_sites ?s1)) 0")
    case (Inl e)
    with Cons.prems show ?thesis by (simp add: select_sites_state Let_def)
  next
    case (Inr tot)
    with Cons.prems have "fst (numbers_loop ns (acc @ [tot]) ?s1) = Inr rs"
      by (simp add: select_sites_state Let_def)
    from Cons.IH[OF this] show ?thesis by simp
  qed
qed

lemma reward_loop_returns:
  "\<forall>p \<in> set path. guardians (st (fst p)) \<noteq> 0 \<Longrightarrow> \<exists>r. reward_loop st path tot = Inr r"
proof (induction path arbitrary: tot)
  case Nil
  show ?case by simp
next
  case (Cons p path)
  obtain site adv where p: "p = (site, adv)" by (cases p)
  with Cons.prems have "guardians (st site) \<noteq> 0" by simp
  moreover have "\<forall>p \<in> set path. guardians (st (fst p)) \<noteq> 0" using Cons.prems by simp
  ultimately show ?case using Cons.IH p by (simp add: py_truediv_def)
qed

lemma numbers_loop_returns:
  assumes "\<forall>e \<in> set (bst_iter (sites self)). guardians (m1_lands self (snd e)) \<noteq> 0"
  shows "\<exists>rs. fst (numbers_loop ns acc self) = Inr rs"
  using assms
proof (induction ns arbitrary: acc self)
  case Nil
  show ?case by simp
next
  case (Cons n ns)
  let ?s1 = "self\<lparr>total_adventurers := n\<rparr>"
  have "\<forall>p \<in> set (fst (select_sites ?s1)). guardians (m1_lands ?s1 (fst p)) \<noteq> 0"
  proof
    fix p assume "p \<in> set (fst (select_sites ?s1))"
    then have "fst p \<in> snd ` set (bst_iter (sites ?s1))" by (rule select_sites_visits)
    then obtain e where "e \<in> set (bst_iter (sites self))" and "fst p = snd e" by auto
    with Cons.prems show "guardians (m1_lands ?s1 (fst p)) \<noteq> 0" by simp
  qed
  then obtain r where r: "reward_loop (m1_lands ?s1) (fst (select_sites ?s1)) 0 = Inr r"
    using reward_loop_returns by blast
  have "\<forall>e \<in> set (bst_iter (sites ?s1)). guardians (m1_lands ?s1 (snd e)) \<noteq> 0"
    using Cons.prems by simp
  from Cons.IH[OF this, of "acc @ [r]"] r show ?case
    by (simp add: select_sites_state Let_def)
qed

lemma numbers_frame:
  "m1_lands (snd (select_sites_from_adventure_numbers self ns)) = m1_lands self
   \<and> sites (snd (select_sites_from_adventure_numbers self ns)) = sites self"
proof (cases "numbers_loop ns [] self")
  case (Pair r s')
  with numbers_loop_frame[of ns "[]" self] show ?thesis
    by (cases r) (simp_all add: select_sites_from_adventure_numbers_def)
qed

lemma numbers_budget:
  assumes "fst (select_sites_from_adventure_numbers self ns) = Inr rs"
  shows "total_adventurers (snd (select_sites_from_adventure_numbers self ns)) =
           total_adventurers self \<and> length rs = length ns"
proof (cases "numbers_loop ns [] self")
  case (Pair r s')
  show ?thesis
  proof (cases r)
    case (Inl e)
    with Pair assms show ?thesis by (simp add: select_sites_from_adventure_numbers_def)
  next
    case (Inr rs')
    with Pair assms have "rs' = rs" by (simp add: select_sites_from_adventure_numbers_def)
    with Pair Inr have "fst (numbers_loop ns [] self) = Inr rs" by simp
    then have "length rs = length ns" using numbers_loop_length by fastforce
    with Pair Inr show ?thesis by (simp add: select_sites_from_adventure_numbers_def)
  qed
qed

lemma numbers_returns:
  assumes "\<forall>e \<in> set (bst_iter (sites self)). guardians (m1_lands self (snd e)) \<noteq> 0"
  shows "\<exists>rs. fst (select_sites_from_adventure_numbers self ns) = Inr rs"
proof -
  obtain rs where "fst (numbers_loop ns [] self) = Inr rs"
    using numbers_loop_returns[OF assms] by blast
  then show ?thesis
    by (cases "numbers_loop ns [] self") (simp add: select_sites_from_adventure_numbers_def)
qed

lemma update_site_unfold:
  assumes "ratio_key (m1_lands self site) = Some key"
    and "bst_delitem (sites self) key = Some t"
    and "new_reward \<noteq> 0"
  shows "update_site self site new_reward new_guardians =
           (Inr (),
            self\<lparr>sites := bst_setitem t (of_int new_guardians / new_reward) site,
                 m1_lands := (m1_lands self)
                   (site := (m1_lands self site)\<lparr>gold := new_reward,
                                                 guardians := new_guardians\<rparr>)\<rparr>)"
  using assms by (simp add: update_site_def ratio_key_def py_truediv_def Let_def)

lemma update_site_zero_reward:
  assumes "ratio_key (m1_lands self site) = Some key"
    and "bst_delitem (sites self) key = Some t"
  shows "update_site self site 0 new_guardians =
           (Inl ZeroDivisionError,
            self\<lparr>sites := t,
                 m1_lands := (m1_lands self)
                   (site := (m1_lands self site)\<lparr>gold := 0, guardians := new_guardians\<rparr>)\<rparr>)"
  using assms by (simp add: update_site_def ratio_key_def py_truediv_def Let_def)

section \<open>Properties of Mode 1\<close>

text \<open>
  Claim C3, as the code has it. \<^verbatim>\<open>select_sites\<close> visits the entries of the container in the
  order of its traversal, which is the ascending order of the keys, and the adventurers sent
  over the returned list sum to the starting budget minus what remains after the traversal.
  It returns the empty list when the container is empty or the budget is 0. When the
  starting budget is not negative, it sends min(remaining, guard_cost) at every visited site,
  appends (site, sent), lowers the remaining adventurers by sent and stops when none remain or
  the traversal is exhausted, and the total sent never exceeds the starting budget. When the
  starting budget is negative, the loop, which runs while the remaining adventurers are
  above 0, is not entered: the list is empty and the remaining adventurers are the starting
  budget.
\<close>

theorem select_sites_greedy:
  "map fst (fst (select_sites self)) =
     map snd (take (length (fst (select_sites self))) (bst_iter (sites self)))
   \<and> (bst_ok (sites self) \<longrightarrow>
        sorted_wrt (<) (map fst (take (length (fst (select_sites self)))
                                    (bst_iter (sites self)))))
   \<and> (sites self = [] \<or> total_adventurers self = 0 \<longrightarrow> fst (select_sites self) = [])
   \<and> sum_list (map snd (fst (select_sites self))) =
       total_adventurers self - remaining_after_traversal self
   \<and> (0 \<le> total_adventurers self \<longrightarrow>
        fst (select_sites self) =
          greedy_visits (m1_lands self) (bst_iter (sites self)) (total_adventurers self)
        \<and> sum_list (map snd (fst (select_sites self))) \<le> total_adventurers self)
   \<and> (total_adventurers self < 0 \<longrightarrow>
        fst (select_sites self) = []
        \<and> remaining_after_traversal self = total_adventurers self)"
proof -
  let ?st = "m1_lands self" and ?it = "bst_iter (sites self)" and ?n = "total_adventurers self"
  have g: "fst (select_sites self) = greedy_visits ?st ?it ?n" if "0 \<le> ?n"
    using select_loop_greedy[OF that, of ?st ?it "[]"] by (simp add: select_sites_def)
  have p: "map fst (fst (select_sites self)) =
             map snd (take (length (fst (select_sites self))) ?it)"
  proof (cases "0 \<le> ?n")
    case True
    show ?thesis unfolding g[OF True] by (rule greedy_visits_prefix)
  next
    case False
    then show ?thesis by (simp add: select_sites_def select_loop_done)
  qed
  have o: "bst_ok (sites self) \<longrightarrow>
              sorted_wrt (<) (map fst (take (length (fst (select_sites self))) ?it))"
    by (simp add: bst_ok_def bst_iter_def sorted_wrt_take flip: take_map)
  have e: "sites self = [] \<or> ?n = 0 \<longrightarrow> fst (select_sites self) = []"
    by (auto simp: select_sites_def bst_iter_def select_loop_Nil select_loop_done)
  have s: "sum_list (map snd (fst (select_sites self))) = ?n - remaining_after_traversal self"
    using select_loop_sum[of ?st ?it ?n "[]"]
    by (simp add: select_sites_def remaining_after_traversal_def)
  have b: "sum_list (map snd (fst (select_sites self))) \<le> ?n" if "0 \<le> ?n"
  proof -
    have "0 \<le> remaining_after_traversal self"
      unfolding remaining_after_traversal_def using that by (rule select_loop_remaining)
    with s show ?thesis by simp
  qed
  have m: "?n < 0 \<longrightarrow>
             fst (select_sites self) = [] \<and> remaining_after_traversal self = ?n"
    by (simp add: select_sites_def remaining_after_traversal_def select_loop_done)
  from g p o e s b m show ?thesis by blast
qed

text \<open>The example of the docstring: with 300 adventurers the navigator sends 100 to A, 50 to
  C and 150 to B; with none it visits nothing, and with -3 it visits nothing and -3 remain.\<close>

theorem select_sites_greedy_witness:
  "bst_ok (sites (island_nav 300)) \<and> 0 \<le> total_adventurers (island_nav 300)
   \<and> fst (select_sites (island_nav 300)) = [(0, 100), (2, 50), (1, 150)]
   \<and> greedy_visits (m1_lands (island_nav 300)) (bst_iter (sites (island_nav 300)))
       (total_adventurers (island_nav 300)) = [(0, 100), (2, 50), (1, 150)]
   \<and> map fst (take 3 (bst_iter (sites (island_nav 300)))) = [1 / 5, 1 / 2, 17 / 30]
   \<and> remaining_after_traversal (island_nav 300) = 0
   \<and> sum_list (map snd (fst (select_sites (island_nav 300)))) = 300
   \<and> total_adventurers (island_nav 0) = 0
   \<and> fst (select_sites (island_nav 0)) = []
   \<and> total_adventurers (island_nav (- 3)) < 0
   \<and> fst (select_sites (island_nav (- 3))) = []
   \<and> remaining_after_traversal (island_nav (- 3)) = - 3"
proof -
  have k: "bst_ok (sites (island_nav 300))" by code_simp
  have n: "total_adventurers (island_nav 300) = 300" by (simp add: island_nav_def)
  have n0: "total_adventurers (island_nav 0) = 0" by (simp add: island_nav_def)
  have f: "fst (select_sites (island_nav 300)) = [(0, 100), (2, 50), (1, 150)]" by code_simp
  have r: "remaining_after_traversal (island_nav 300) = 0" by code_simp
  have t: "map fst (take 3 (bst_iter (sites (island_nav 300)))) = [1 / 5, 1 / 2, 17 / 30]"
    by (simp add: island_nav_def bst_iter_def)
  note w = select_sites_greedy[of "island_nav 300"]
  have p: "0 \<le> total_adventurers (island_nav 300)" by (simp add: n)
  from w p have "fst (select_sites (island_nav 300)) =
      greedy_visits (m1_lands (island_nav 300)) (bst_iter (sites (island_nav 300)))
        (total_adventurers (island_nav 300))"
    by blast
  with f have gr: "greedy_visits (m1_lands (island_nav 300)) (bst_iter (sites (island_nav 300)))
       (total_adventurers (island_nav 300)) = [(0, 100), (2, 50), (1, 150)]"
    by simp
  from w have "sum_list (map snd (fst (select_sites (island_nav 300)))) =
      total_adventurers (island_nav 300) - remaining_after_traversal (island_nav 300)"
    by blast
  then have s: "sum_list (map snd (fst (select_sites (island_nav 300)))) = 300"
    unfolding n r by simp
  from select_sites_greedy[of "island_nav 0"] n0
  have e: "fst (select_sites (island_nav 0)) = []" by blast
  have n3: "total_adventurers (island_nav (- 3)) = - 3" by (simp add: island_nav_def)
  then have l3: "total_adventurers (island_nav (- 3)) < 0" by simp
  from select_sites_greedy[of "island_nav (- 3)"] l3
  have "fst (select_sites (island_nav (- 3))) = []
        \<and> remaining_after_traversal (island_nav (- 3)) = total_adventurers (island_nav (- 3))"
    by blast
  then have e3: "fst (select_sites (island_nav (- 3))) = []"
    and r3: "remaining_after_traversal (island_nav (- 3)) = - 3"
    by (simp_all add: n3)
  from k p f gr t r s n0 e l3 e3 r3 show ?thesis by blast
qed

text \<open>Claim C3 as the spec states it fails for a negative budget: with -5 adventurers the
  loop is not entered, so nothing is visited although adventurers "remain" and the traversal
  is not exhausted (sending min(remaining, guard_cost) until nothing remains would visit A),
  and the total sent, 0, exceeds the starting budget.\<close>

theorem select_sites_negative_budget_counterexample:
  "total_adventurers (island_nav (- 5)) = - 5
   \<and> fst (select_sites (island_nav (- 5))) = []
   \<and> greedy_visits (m1_lands (island_nav (- 5))) (bst_iter (sites (island_nav (- 5)))) (- 5) =
       [(0, - 5)]
   \<and> \<not> sum_list (map snd (fst (select_sites (island_nav (- 5)))))
         \<le> total_adventurers (island_nav (- 5))"
proof -
  have "total_adventurers (island_nav (- 5)) = - 5" by (simp add: island_nav_def)
  moreover have "fst (select_sites (island_nav (- 5))) = []" by code_simp
  moreover have
    "greedy_visits (m1_lands (island_nav (- 5))) (bst_iter (sites (island_nav (- 5)))) (- 5) =
       [(0, - 5)]"
    by code_simp
  ultimately show ?thesis by simp
qed

text \<open>
  Claim C5 says that a site without guardians contributes the reward 0 in
  \<^verbatim>\<open>select_sites_from_adventure_numbers\<close> and that no division fault leaves the method. The
  method divides by the guardians of every visited site with no handler: for the navigator
  over the single land X (100 gold, no guardians) and the probed budget 5, \<^verbatim>\<open>select_sites\<close>
  visits X with 0 adventurers, the division raises, and the budget field keeps the probed
  value 5 instead of the 10 it had. \<^verbatim>\<open>compute_score\<close> of Mode 2 catches the same division.
\<close>

theorem unguarded_site_division_fault:
  "bst_getitem (sites unguarded_nav) 0 = Some 0
   \<and> guardians (m1_lands unguarded_nav 0) = 0
   \<and> fst (select_sites (unguarded_nav\<lparr>total_adventurers := 5\<rparr>)) = [(0, 0)]
   \<and> fst (select_sites_from_adventure_numbers unguarded_nav [5]) = Inl ZeroDivisionError
   \<and> total_adventurers (snd (select_sites_from_adventure_numbers unguarded_nav [5])) = 5"
proof -
  have "bst_getitem (sites unguarded_nav) 0 = Some 0" by code_simp
  moreover have "guardians (m1_lands unguarded_nav 0) = 0" by code_simp
  moreover have "fst (select_sites (unguarded_nav\<lparr>total_adventurers := 5\<rparr>)) = [(0, 0)]"
    by code_simp
  moreover have "fst (select_sites_from_adventure_numbers unguarded_nav [5]) =
                   Inl ZeroDivisionError"
    by code_simp
  moreover have
    "total_adventurers (snd (select_sites_from_adventure_numbers unguarded_nav [5])) = 5"
    by code_simp
  ultimately show ?thesis by simp
qed

lemma compute_score_unguarded:
  "guardians (m2_lands s site) = 0 \<Longrightarrow> fst (snd (fst (compute_score s site B))) = 0"
  by (simp add: score_spec_def Let_def)

text \<open>
  Claim C6, as the code has it. Let the keys of the container be unique and let the site be
  in the container under the ratio of its current fields. For a new reward other than 0,
  \<^verbatim>\<open>update_site\<close> deletes the entry under that ratio, writes the two fields and inserts the site
  under the ratio of the new fields. Afterwards the lookup at the new key returns the site,
  whose fields are the new ones, and the lookup at the old key fails if the new ratio differs
  from the old one.
\<close>

theorem update_site_rekeys:
  assumes "bst_ok (sites self)"
    and "ratio_key (m1_lands self site) = Some key"
    and "bst_getitem (sites self) key = Some site"
    and "new_reward \<noteq> 0"
  shows "fst (update_site self site new_reward new_guardians) = Inr ()
         \<and> (\<exists>t. bst_delitem (sites self) key = Some t
                \<and> sites (snd (update_site self site new_reward new_guardians)) =
                    bst_setitem t (of_int new_guardians / new_reward) site)
         \<and> m1_lands (snd (update_site self site new_reward new_guardians)) =
             (m1_lands self)(site := (m1_lands self site)\<lparr>gold := new_reward,
                                                          guardians := new_guardians\<rparr>)
         \<and> ratio_key (m1_lands (snd (update_site self site new_reward new_guardians)) site) =
             Some (of_int new_guardians / new_reward)
         \<and> bst_getitem (sites (snd (update_site self site new_reward new_guardians)))
             (of_int new_guardians / new_reward) = Some site
         \<and> (of_int new_guardians / new_reward \<noteq> key \<longrightarrow>
              bst_getitem (sites (snd (update_site self site new_reward new_guardians))) key
                = None)
         \<and> bst_ok (sites (snd (update_site self site new_reward new_guardians)))"
proof -
  let ?new = "of_int new_guardians / new_reward"
  obtain t where d: "bst_delitem (sites self) key = Some t"
    using assms(3) bst_delitem_present by blast
  note u = update_site_unfold[OF assms(2) d assms(4), of new_guardians]
  have ok: "bst_ok t" using assms(1) d by (rule bst_ok_delitem)
  have old: "?new \<noteq> key \<longrightarrow> bst_getitem (bst_setitem t ?new site) key = None"
    using bst_getitem_delitem[OF assms(1) d, of key] by (simp add: bst_getitem_setitem)
  have nk: "ratio_key ((m1_lands self site)\<lparr>gold := new_reward, guardians := new_guardians\<rparr>)
              = Some ?new"
    using assms(4) by (simp add: ratio_key_def py_truediv_def)
  show ?thesis
    using d ok old nk by (simp add: u bst_getitem_setitem bst_ok_setitem)
qed

text \<open>The example of the docstring: B (300 gold, 170 guardians, key 17/30) is updated to 350
  gold and 450 guardians, and is then found under 9/7 and no longer under 17/30.\<close>

theorem update_site_rekeys_witness:
  "bst_ok (sites (island_nav 300))
   \<and> ratio_key (m1_lands (island_nav 300) 1) = Some (17 / 30)
   \<and> bst_getitem (sites (island_nav 300)) (17 / 30) = Some 1
   \<and> (350::rat) \<noteq> 0
   \<and> fst (update_site (island_nav 300) 1 350 450) = Inr ()
   \<and> of_int 450 / 350 = (9 / 7 :: rat)
   \<and> bst_getitem (sites (snd (update_site (island_nav 300) 1 350 450))) (9 / 7) = Some 1
   \<and> bst_getitem (sites (snd (update_site (island_nav 300) 1 350 450))) (17 / 30) = None
   \<and> gold (m1_lands (snd (update_site (island_nav 300) 1 350 450)) 1) = 350
   \<and> guardians (m1_lands (snd (update_site (island_nav 300) 1 350 450)) 1) = 450"
proof -
  have a: "bst_ok (sites (island_nav 300))" by code_simp
  have b: "ratio_key (m1_lands (island_nav 300) 1) = Some (17 / 30)" by code_simp
  have c: "bst_getitem (sites (island_nav 300)) (17 / 30) = Some 1" by code_simp
  have d: "(350::rat) \<noteq> 0" by simp
  have q: "of_int 450 / 350 = (9 / 7 :: rat)" by simp
  note w = update_site_rekeys[OF a b c d, of 450]
  from w have 1: "fst (update_site (island_nav 300) 1 350 450) = Inr ()" by blast
  from w q have 2: "bst_getitem (sites (snd (update_site (island_nav 300) 1 350 450))) (9 / 7)
                      = Some 1"
    by simp
  from w q have 3: "bst_getitem (sites (snd (update_site (island_nav 300) 1 350 450))) (17 / 30)
                      = None"
    by simp
  from w have 4: "m1_lands (snd (update_site (island_nav 300) 1 350 450)) =
             (m1_lands (island_nav 300))(1 := (m1_lands (island_nav 300) 1)\<lparr>gold := 350,
                                                          guardians := 450\<rparr>)"
    by blast
  have 5: "gold (m1_lands (snd (update_site (island_nav 300) 1 350 450)) 1) = 350"
    unfolding 4 by simp
  have 6: "guardians (m1_lands (snd (update_site (island_nav 300) 1 350 450)) 1) = 450"
    unfolding 4 by simp
  from a b c d 1 q 2 3 5 6 show ?thesis by blast
qed

text \<open>Claim C6 as the spec states it fails. When B is updated to 600 gold and 340 guardians,
  the new ratio is the old one, 17/30, and the lookup at the old key finds B. When B is
  updated to 0 gold, the second division raises after the deletion: B is in the container
  under no key.\<close>

theorem update_site_same_ratio_counterexample:
  "bst_ok (sites (island_nav 300))
   \<and> ratio_key (m1_lands (island_nav 300) 1) = Some (17 / 30)
   \<and> bst_getitem (sites (island_nav 300)) (17 / 30) = Some 1
   \<and> fst (update_site (island_nav 300) 1 600 340) = Inr ()
   \<and> bst_getitem (sites (snd (update_site (island_nav 300) 1 600 340))) (17 / 30) = Some 1
   \<and> fst (update_site (island_nav 300) 1 0 340) = Inl ZeroDivisionError
   \<and> sites (snd (update_site (island_nav 300) 1 0 340)) = [(1 / 5, 0), (1 / 2, 2)]"
proof -
  have "bst_ok (sites (island_nav 300))" by code_simp
  moreover have "ratio_key (m1_lands (island_nav 300) 1) = Some (17 / 30)" by code_simp
  moreover have "bst_getitem (sites (island_nav 300)) (17 / 30) = Some 1" by code_simp
  moreover have "fst (update_site (island_nav 300) 1 600 340) = Inr ()" by code_simp
  moreover have
    "bst_getitem (sites (snd (update_site (island_nav 300) 1 600 340))) (17 / 30) = Some 1"
    by code_simp
  moreover have "fst (update_site (island_nav 300) 1 0 340) = Inl ZeroDivisionError"
    by code_simp
  moreover have "sites (snd (update_site (island_nav 300) 1 0 340)) = [(1 / 5, 0), (1 / 2, 2)]"
    by code_simp
  ultimately show ?thesis by simp
qed

text \<open>The rest of the docstring example: after the update of B the same path is selected,
  and the budgets 130, 500 and 230 give 560, 7850/9 (872.22...) and 5960/9 (662.22...).\<close>

lemma island_update_example:
  "fst (select_sites (snd (update_site (island_nav 300) 1 350 450))) =
     [(0, 100), (2, 50), (1, 150)]"
  "fst (select_sites_from_adventure_numbers (snd (update_site (island_nav 300) 1 350 450))
          [130, 500, 230]) = Inr [560, 7850 / 9, 5960 / 9]"
  by code_simp+

text \<open>
  Claim C7. Whenever \<^verbatim>\<open>select_sites_from_adventure_numbers\<close> returns, the budget field of the
  navigator has the value it had before the call, however many budgets were probed, and the
  list returned has one reward for each of them. The call does return when no site of the
  container is without guardians.
\<close>

theorem budget_restored_on_return:
  "(\<forall>rs. fst (select_sites_from_adventure_numbers self ns) = Inr rs \<longrightarrow>
      total_adventurers (snd (select_sites_from_adventure_numbers self ns)) =
        total_adventurers self
      \<and> length rs = length ns)
   \<and> ((\<forall>e \<in> set (bst_iter (sites self)). guardians (m1_lands self (snd e)) \<noteq> 0) \<longrightarrow>
        (\<exists>rs. fst (select_sites_from_adventure_numbers self ns) = Inr rs))"
  using numbers_budget numbers_returns by blast

text \<open>The example of the docstring: the budgets 130, 500 and 230 give the rewards 560, 900
  and 12600/17 (741.176...), and the budget is 300 as before.\<close>

theorem budget_restored_on_return_witness:
  "list_all (\<lambda>e. guardians (m1_lands (island_nav 300) (snd e)) \<noteq> 0)
     (bst_iter (sites (island_nav 300)))
   \<and> fst (select_sites_from_adventure_numbers (island_nav 300) [130, 500, 230]) =
       Inr [560, 900, 12600 / 17]
   \<and> total_adventurers (snd (select_sites_from_adventure_numbers (island_nav 300)
       [130, 500, 230])) = 300"
proof -
  have g: "list_all (\<lambda>e. guardians (m1_lands (island_nav 300) (snd e)) \<noteq> 0)
             (bst_iter (sites (island_nav 300)))"
    by code_simp
  have f: "fst (select_sites_from_adventure_numbers (island_nav 300) [130, 500, 230]) =
             Inr [560, 900, 12600 / 17]"
    by code_simp
  have n: "total_adventurers (island_nav 300) = 300" by (simp add: island_nav_def)
  from budget_restored_on_return[of "island_nav 300" "[130, 500, 230]"] f n
  have "total_adventurers (snd (select_sites_from_adventure_numbers (island_nav 300)
       [130, 500, 230])) = 300"
    by simp
  with g f show ?thesis by simp
qed

text \<open>
  Claim C10. \<^verbatim>\<open>select_sites\<close> leaves the whole state as it was: no field of a site and no
  entry of the container changes. \<^verbatim>\<open>select_sites_from_adventure_numbers\<close> leaves the fields of
  all sites and the entries of the container as they were (also when it raises); the budget
  is the only field it writes.
\<close>

theorem selection_mutates_nothing:
  "snd (select_sites self) = self
   \<and> m1_lands (snd (select_sites_from_adventure_numbers self ns)) = m1_lands self
   \<and> sites (snd (select_sites_from_adventure_numbers self ns)) = sites self"
  using select_sites_state numbers_frame by blast

end
